(* ===== verification/Prelude.thy ===== *)
theory Prelude
  imports Main "HOL-Library.Word"
begin

text \<open>
  Shared vocabulary of the development: the names of the machine integers, the reading of
  Rust's \<^verbatim>\<open>Result\<close> as a sum (\<open>Inl\<close> the error, \<open>Inr\<close> the value), the
  simplification collections of the component theories, generic lemmas on lists and
  maps, runs and reachable states of labelled transition systems, and the locales of
  systems with an invariant that the concurrent model instantiates.
\<close>

type_synonym u8 = "8 word"
type_synonym u16 = "16 word"
type_synonym u32 = "32 word"
type_synonym u64 = "64 word"

text \<open>\<^verbatim>\<open>Result::map_err\<close> and \<^verbatim>\<open>Result::ok\<close>.\<close>

definition map_err :: "('e \<Rightarrow> 'f) \<Rightarrow> 'e + 'a \<Rightarrow> 'f + 'a" where
  "map_err f r = (case r of Inl e \<Rightarrow> Inl (f e) | Inr x \<Rightarrow> Inr x)"

definition is_ok :: "'e + 'a \<Rightarrow> bool" where
  "is_ok r = (case r of Inl _ \<Rightarrow> False | Inr _ \<Rightarrow> True)"

lemma map_err_simps [simp]:
  "map_err f (Inl e) = Inl (f e)"
  "map_err f (Inr x) = Inr x"
  by (simp_all add: map_err_def)

lemma is_ok_simps [simp]:
  "\<not> is_ok (Inl e)"
  "is_ok (Inr x)"
  by (simp_all add: is_ok_def)

named_theorems frame_simps \<open>the fields an operation leaves alone\<close>


section \<open>Lists\<close>

text \<open>\<^verbatim>\<open>str::split\<close> with a predicate: the pieces between the separators.\<close>

fun split_on :: "('a \<Rightarrow> bool) \<Rightarrow> 'a list \<Rightarrow> 'a list list" where
  "split_on P [] = [[]]"
| "split_on P (x # xs) =
     (if P x then [] # split_on P xs
      else (case split_on P xs of [] \<Rightarrow> [[x]] | y # ys \<Rightarrow> (x # y) # ys))"

lemma split_on_not_Nil [simp]: "split_on P xs \<noteq> []"
  by (cases xs) (auto split: list.splits)

lemma length_split_on: "length (split_on P xs) = Suc (length (filter P xs))"
proof (induction xs)
  case (Cons x xs)
  then show ?case by (cases "split_on P xs") simp_all
qed simp

lemma split_on_no_sep: "\<forall>x \<in> set xs. \<not> P x \<Longrightarrow> split_on P xs = [xs]"
  by (induction xs) auto

lemma split_on_append_sep:
  assumes "\<forall>x \<in> set xs. \<not> P x" and "P s"
  shows "split_on P (xs @ s # ys) = xs # split_on P ys"
  using assms by (induction xs) auto

lemma split_on_no_sep_in_pieces: "p \<in> set (split_on P xs) \<Longrightarrow> x \<in> set p \<Longrightarrow> \<not> P x"
  by (induction xs arbitrary: p) (fastforce split: list.splits if_splits)+

lemma set_split_on: "p \<in> set (split_on P xs) \<Longrightarrow> set p \<subseteq> set xs"
proof (induction xs arbitrary: p)
  case (Cons x xs)
  then show ?case
    by (cases "split_on P xs") (fastforce split: if_splits)+
qed simp

lemma takeWhile_append_stop:
  "\<forall>x \<in> set xs. P x \<Longrightarrow> \<not> P y \<Longrightarrow> takeWhile P (xs @ y # ys) = xs"
  by (induction xs) auto

lemma dropWhile_append_stop:
  "\<forall>x \<in> set xs. P x \<Longrightarrow> \<not> P y \<Longrightarrow> dropWhile P (xs @ y # ys) = y # ys"
  by (induction xs) auto

lemma takeWhile_all: "\<forall>x \<in> set xs. P x \<Longrightarrow> takeWhile P xs = xs"
  by (induction xs) auto

lemma dropWhile_all: "\<forall>x \<in> set xs. P x \<Longrightarrow> dropWhile P xs = []"
  by (induction xs) auto


lemma first_sep_unique:
  "xs @ x # us = ys @ x # vs \<Longrightarrow> x \<notin> set xs \<Longrightarrow> x \<notin> set ys \<Longrightarrow> xs = ys \<and> us = vs"
proof (induction xs arbitrary: ys)
  case (Cons a xs)
  then show ?case by (cases ys) auto
qed (auto simp: Cons_eq_append_conv)

lemma prefix_before_sep: "xs @ zs = l @ x # us \<Longrightarrow> x \<notin> set xs \<Longrightarrow> \<exists>l'. l = xs @ l'"
proof (induction xs arbitrary: l)
  case (Cons a xs)
  then show ?case by (cases l) auto
qed simp


section \<open>Maps\<close>

lemma dom_upd_Some: "m k = Some v \<Longrightarrow> dom (m(k \<mapsto> w)) = dom m"
  by auto


section \<open>Labelled transition systems\<close>

text \<open>
  A system of interleaved threads is a partial step function: \<open>step a s\<close> is the state
  after action \<open>a\<close>, or \<open>None\<close> when \<open>a\<close> is not enabled (its thread is blocked or does
  not exist). All nondeterminism is in the choice of the action.
\<close>

fun run_steps :: "('a \<Rightarrow> 's \<Rightarrow> 's option) \<Rightarrow> 'a list \<Rightarrow> 's \<Rightarrow> 's option" where
  "run_steps step [] s = Some s"
| "run_steps step (a # as) s = (case step a s of None \<Rightarrow> None | Some t \<Rightarrow> run_steps step as t)"

inductive reachable :: "('s \<Rightarrow> bool) \<Rightarrow> ('a \<Rightarrow> 's \<Rightarrow> 's option) \<Rightarrow> 's \<Rightarrow> bool" for init step where
  initial: "init s \<Longrightarrow> reachable init step s"
| successor: "reachable init step s \<Longrightarrow> step a s = Some t \<Longrightarrow> reachable init step t"

lemma run_steps_append:
  "run_steps step (as @ bs) s = (case run_steps step as s of None \<Rightarrow> None | Some t \<Rightarrow> run_steps step bs t)"
  by (induction as arbitrary: s) (auto split: option.splits)

lemma run_steps_reachable:
  "run_steps step as s = Some t \<Longrightarrow> reachable init step s \<Longrightarrow> reachable init step t"
  by (induction as arbitrary: s) (auto split: option.splits intro: successor)

text \<open>A system with an invariant, and one whose steps also move along a preorder.\<close>

locale invariant_system =
  fixes init :: "'s \<Rightarrow> bool"
    and step :: "'a \<Rightarrow> 's \<Rightarrow> 's option"
    and inv :: "'s \<Rightarrow> bool"
  assumes inv_init: "init s \<Longrightarrow> inv s"
    and inv_step: "inv s \<Longrightarrow> step a s = Some t \<Longrightarrow> inv t"
begin

lemma reachable_inv: "reachable init step s \<Longrightarrow> inv s"
  by (induction rule: reachable.induct) (auto intro: inv_init inv_step)

lemma run_inv: "run_steps step as s = Some t \<Longrightarrow> inv s \<Longrightarrow> inv t"
  by (induction as arbitrary: s) (auto split: option.splits intro: inv_step)

end

locale advancing_system = invariant_system init step inv
  for init :: "'s \<Rightarrow> bool"
    and step :: "'a \<Rightarrow> 's \<Rightarrow> 's option"
    and inv :: "'s \<Rightarrow> bool" +
  fixes le :: "'s \<Rightarrow> 's \<Rightarrow> bool"
  assumes le_refl: "le s s"
    and le_trans: "le s t \<Longrightarrow> le t u \<Longrightarrow> le s u"
    and le_step: "inv s \<Longrightarrow> step a s = Some t \<Longrightarrow> le s t"
begin

lemma run_le: "run_steps step as s = Some t \<Longrightarrow> inv s \<Longrightarrow> le s t"
proof (induction as arbitrary: s)
  case (Cons a as)
  then obtain u where u: "step a s = Some u" "run_steps step as u = Some t"
    by (auto split: option.splits)
  have "inv u" using inv_step [OF Cons.prems(2) u(1)] .
  with Cons.IH [OF u(2)] le_step [OF Cons.prems(2) u(1)] show ?case by (blast intro: le_trans)
qed (simp add: le_refl)

lemma reachable_above: "reachable init step s \<Longrightarrow> \<exists>s0. init s0 \<and> le s0 s"
proof (induction rule: reachable.induct)
  case (initial s)
  then show ?case using le_refl by blast
next
  case (successor s a t)
  then show ?case using le_step reachable_inv le_trans by blast
qed

text \<open>What holds of a state and is kept along the preorder holds for ever.\<close>

lemma run_upward:
  assumes "run_steps step as s = Some t" and "inv s" and "P s" and "\<And>u v. le u v \<Longrightarrow> P u \<Longrightarrow> P v"
  shows "P t"
  using run_le [OF assms(1,2)] assms(3,4) by blast

end

end
