(* ===== verification/Rust_Text.thy ===== *)
theory Rust_Text
  imports Prelude
begin

text \<open>
  The part of Rust's text library that the program uses. A \<^verbatim>\<open>str\<close> is the list of its
  UTF-8 bytes (\<open>string\<close>, a list of 8-bit \<open>char\<close>s), so \<^verbatim>\<open>as_bytes\<close> is the identity
  and lengths are byte lengths. \<open>chars\<close> regroups the bytes of valid UTF-8 into
  characters, which is what \<^verbatim>\<open>trim\<close>, \<^verbatim>\<open>split_whitespace\<close> and \<^verbatim>\<open>to_uppercase\<close> walk
  over. The Unicode case mappings of characters beyond ASCII are data tables of the
  library: the functions that use them take the table as a parameter.
\<close>

section \<open>Characters\<close>

definition byte_of :: "char \<Rightarrow> nat" where
  "byte_of c = of_char c"

definition is_cont :: "char \<Rightarrow> bool" where
  "is_cont c \<longleftrightarrow> 128 \<le> byte_of c \<and> byte_of c < 192"

lemma length_dropWhile_less [termination_simp]: "length (dropWhile P xs) < Suc (length xs)"
  by (simp add: le_imp_less_Suc length_dropWhile_le)

fun chars :: "string \<Rightarrow> string list" where
  "chars [] = []"
| "chars (b # bs) = (b # takeWhile is_cont bs) # chars (dropWhile is_cont bs)"

lemma concat_chars [simp]: "concat (chars s) = s"
  by (induction s rule: chars.induct) auto

definition is_ascii :: "char \<Rightarrow> bool" where
  "is_ascii c \<longleftrightarrow> byte_of c < 128"

abbreviation ascii :: "string \<Rightarrow> bool" where
  "ascii s \<equiv> list_all is_ascii s"

lemma ascii_not_cont: "is_ascii c \<Longrightarrow> \<not> is_cont c"
  by (simp add: is_ascii_def is_cont_def)

lemma takeWhile_cont_ascii: "ascii s \<Longrightarrow> takeWhile is_cont s = []"
  by (cases s) (auto dest: ascii_not_cont)

lemma dropWhile_cont_ascii: "ascii s \<Longrightarrow> dropWhile is_cont s = s"
  by (cases s) (auto dest: ascii_not_cont)

lemma chars_ascii: "ascii s \<Longrightarrow> chars s = map (\<lambda>c. [c]) s"
  by (induction s rule: chars.induct)
    (auto simp: takeWhile_cont_ascii dropWhile_cont_ascii)

text \<open>UTF-8 validity, as \<^verbatim>\<open>str::from_utf8\<close> checks it (no surrogates, no overlong forms).\<close>

definition byte_in :: "nat \<Rightarrow> nat \<Rightarrow> char \<Rightarrow> bool" where
  "byte_in lo hi c \<longleftrightarrow> lo \<le> byte_of c \<and> byte_of c \<le> hi"

definition utf8_char :: "string \<Rightarrow> bool" where
  "utf8_char c = (case c of
     [a] \<Rightarrow> byte_in 0 127 a
   | [a, b] \<Rightarrow> byte_in 194 223 a \<and> is_cont b
   | [a, b, d] \<Rightarrow>
       (byte_of a = 224 \<and> byte_in 160 191 b \<or>
        (byte_in 225 236 a \<or> byte_in 238 239 a) \<and> is_cont b \<or>
        byte_of a = 237 \<and> byte_in 128 159 b) \<and> is_cont d
   | [a, b, d, e] \<Rightarrow>
       (byte_of a = 240 \<and> byte_in 144 191 b \<or>
        byte_in 241 243 a \<and> is_cont b \<or>
        byte_of a = 244 \<and> byte_in 128 143 b) \<and> is_cont d \<and> is_cont e
   | _ \<Rightarrow> False)"

definition utf8_valid :: "string \<Rightarrow> bool" where
  "utf8_valid s \<longleftrightarrow> list_all utf8_char (chars s)"

lemma utf8_valid_ascii: "ascii s \<Longrightarrow> utf8_valid s"
  by (auto simp: utf8_valid_def chars_ascii list_all_iff utf8_char_def byte_in_def is_ascii_def)

text \<open>A sequence of characters is valid text, and its characters are these.\<close>

lemma utf8_char_bytes:
  assumes "utf8_char c"
  obtains b bs where "c = b # bs" and "\<not> is_cont b" and "list_all is_cont bs"
proof -
  consider b where "c = [b]" | b d where "c = [b, d]" | b d e where "c = [b, d, e]"
    | b d e f where "c = [b, d, e, f]"
    using assms by (auto simp: utf8_char_def split: list.splits)
  then show thesis
  proof cases
    case (1 b)
    then show thesis using assms that [of b "[]"] by (simp add: utf8_char_def byte_in_def is_cont_def)
  next
    case (2 b d)
    then show thesis using assms that [of b "[d]"] by (simp add: utf8_char_def byte_in_def is_cont_def)
  next
    case (3 b d e)
    then show thesis
      using assms that [of b "[d, e]"] by (auto simp: utf8_char_def byte_in_def is_cont_def)
  next
    case (4 b d e f)
    then have "byte_of b = 240 \<or> byte_in 241 243 b \<or> byte_of b = 244"
      and "byte_in 144 191 d \<or> is_cont d \<or> byte_in 128 143 d" and ef: "is_cont e" "is_cont f"
      using assms by (auto simp: utf8_char_def)
    moreover have "is_cont x" if "byte_in 144 191 x \<or> byte_in 128 143 x" for x
      using that unfolding byte_in_def is_cont_def by linarith
    moreover have "\<not> is_cont x" if "byte_of x = 240 \<or> byte_in 241 243 x \<or> byte_of x = 244" for x
      using that unfolding byte_in_def is_cont_def by linarith
    ultimately have "\<not> is_cont b" and "is_cont d" by blast+
    with ef 4 that [of b "[d, e, f]"] show thesis by simp
  qed
qed

lemma cont_run:
  assumes "list_all is_cont bs" and "list_all utf8_char cs"
  shows "takeWhile is_cont (bs @ concat cs) = bs" and "dropWhile is_cont (bs @ concat cs) = concat cs"
proof -
  have all: "\<forall>b \<in> set bs. is_cont b" using assms(1) by (simp add: list_all_iff)
  have "concat cs = [] \<or> \<not> is_cont (hd (concat cs))"
  proof (cases cs)
    case (Cons c cs')
    with assms(2) have "utf8_char c" by simp
    then show ?thesis by (rule utf8_char_bytes) (simp add: Cons)
  qed simp
  moreover have "takeWhile is_cont xs = [] \<and> dropWhile is_cont xs = xs" if "xs = [] \<or> \<not> is_cont (hd xs)" for xs
    using that by (cases xs) auto
  ultimately have t: "takeWhile is_cont (concat cs) = []" "dropWhile is_cont (concat cs) = concat cs" by blast+
  show "takeWhile is_cont (bs @ concat cs) = bs"
    using takeWhile_append2 [of bs is_cont "concat cs"] all t(1) by simp
  show "dropWhile is_cont (bs @ concat cs) = concat cs"
    using dropWhile_append2 [of bs is_cont "concat cs"] all t(2) by simp
qed

lemma chars_concat: "list_all utf8_char cs \<Longrightarrow> chars (concat cs) = cs"
proof (induction cs)
  case (Cons c cs)
  then have c: "utf8_char c" and cs: "list_all utf8_char cs" by simp_all
  from c obtain b bs where b: "c = b # bs" "list_all is_cont bs" by (rule utf8_char_bytes)
  show ?case using cont_run [OF b(2) cs] Cons.IH [OF cs] by (simp add: b(1))
qed simp

lemma utf8_valid_iff: "utf8_valid s \<longleftrightarrow> (\<exists>cs. list_all utf8_char cs \<and> s = concat cs)"
  unfolding utf8_valid_def using chars_concat concat_chars by metis

lemma utf8_valid_concat: "list_all utf8_valid ss \<Longrightarrow> utf8_valid (concat ss)"
proof (induction ss)
  case (Cons s ss)
  then obtain xs ys where "list_all utf8_char xs" "s = concat xs" "list_all utf8_char ys" "concat ss = concat ys"
    unfolding utf8_valid_iff by auto
  then show ?case unfolding utf8_valid_iff by (intro exI [of _ "xs @ ys"]) simp
qed (simp add: utf8_valid_def)

lemma utf8_valid_append: "utf8_valid s \<Longrightarrow> utf8_valid t \<Longrightarrow> utf8_valid (s @ t)"
  using utf8_valid_concat [of "[s, t]"] by simp

text \<open>Any selection of the characters of valid text is valid.\<close>

lemma utf8_valid_part: "utf8_valid s \<Longrightarrow> set cs \<subseteq> set (chars s) \<Longrightarrow> utf8_valid (concat cs)"
  unfolding utf8_valid_iff [of "concat cs"] by (intro exI [of _ cs]) (auto simp: utf8_valid_def list_all_iff)

text \<open>
  \<^verbatim>\<open>String::from_utf8_lossy\<close>: every maximal part that is a prefix of a character, and every
  other byte that begins none, becomes U+FFFD. \<open>lossy_step a bs\<close> says whether \<open>a # bs\<close> begins
  with a character, and how many bytes that character or the bad part has.
\<close>

definition second_byte :: "char \<Rightarrow> char \<Rightarrow> bool" where
  "second_byte a b =
     (if byte_of a = 224 then byte_in 160 191 b
      else if byte_of a = 237 then byte_in 128 159 b
      else if byte_of a = 240 then byte_in 144 191 b
      else if byte_of a = 244 then byte_in 128 143 b
      else is_cont b)"

definition lossy_step :: "char \<Rightarrow> string \<Rightarrow> bool \<times> nat" where
  "lossy_step a bs =
     (if byte_in 0 127 a then (True, 1)
      else if \<not> byte_in 194 244 a then (False, 1)
      else (case bs of
          [] \<Rightarrow> (False, 1)
        | b # cs \<Rightarrow>
            if \<not> second_byte a b then (False, 1)
            else if byte_in 194 223 a then (True, 2)
            else (case cs of
                [] \<Rightarrow> (False, 2)
              | c # ds \<Rightarrow>
                  if \<not> is_cont c then (False, 2)
                  else if byte_in 224 239 a then (True, 3)
                  else (case ds of
                      [] \<Rightarrow> (False, 3)
                    | d # _ \<Rightarrow> if is_cont d then (True, 4) else (False, 3)))))"

definition replacement :: string where
  "replacement = [CHR 0xEF, CHR 0xBF, CHR 0xBD]"

fun from_utf8_lossy :: "string \<Rightarrow> string" where
  "from_utf8_lossy [] = []"
| "from_utf8_lossy (a # bs) =
     (let (ok, n) = lossy_step a bs
      in (if ok then take n (a # bs) else replacement) @ from_utf8_lossy (drop (n - 1) bs))"

lemma lossy_step_valid:
  assumes "utf8_char (a # bs)"
  shows "lossy_step a (bs @ cs) = (True, Suc (length bs))"
proof -
  consider "bs = []" | b where "bs = [b]" | b c where "bs = [b, c]" | b c d where "bs = [b, c, d]"
    using assms by (auto simp: utf8_char_def split: list.splits)
  then show ?thesis
    using assms by cases (auto simp: utf8_char_def lossy_step_def second_byte_def byte_in_def is_cont_def)
qed

text \<open>Valid text is left as it is.\<close>

lemma from_utf8_lossy_valid: "utf8_valid s \<Longrightarrow> from_utf8_lossy s = s"
proof (induction s rule: chars.induct)
  case (2 b bs)
  let ?t = "takeWhile is_cont bs" and ?d = "dropWhile is_cont bs"
  have "utf8_char (b # ?t)" and v: "utf8_valid ?d" using "2.prems" by (simp_all add: utf8_valid_def)
  then have "lossy_step b (?t @ ?d) = (True, Suc (length ?t))" by (intro lossy_step_valid)
  then have "from_utf8_lossy (b # (?t @ ?d)) = b # ?t @ from_utf8_lossy ?d"
    by (simp del: takeWhile_dropWhile_id)
  with "2.IH" [OF v] show ?case by simp
qed simp


section \<open>White space\<close>

text \<open>The characters with the Unicode property \<open>White_Space\<close>, in UTF-8.\<close>

definition white_space :: "string list" where
  "white_space =
     [[CHR 0x09], [CHR 0x0A], [CHR 0x0B], [CHR 0x0C], [CHR 0x0D], [CHR 0x20],
      [CHR 0xC2, CHR 0x85], [CHR 0xC2, CHR 0xA0], [CHR 0xE1, CHR 0x9A, CHR 0x80],
      [CHR 0xE2, CHR 0x80, CHR 0x80], [CHR 0xE2, CHR 0x80, CHR 0x81],
      [CHR 0xE2, CHR 0x80, CHR 0x82], [CHR 0xE2, CHR 0x80, CHR 0x83],
      [CHR 0xE2, CHR 0x80, CHR 0x84], [CHR 0xE2, CHR 0x80, CHR 0x85],
      [CHR 0xE2, CHR 0x80, CHR 0x86], [CHR 0xE2, CHR 0x80, CHR 0x87],
      [CHR 0xE2, CHR 0x80, CHR 0x88], [CHR 0xE2, CHR 0x80, CHR 0x89],
      [CHR 0xE2, CHR 0x80, CHR 0x8A], [CHR 0xE2, CHR 0x80, CHR 0xA8],
      [CHR 0xE2, CHR 0x80, CHR 0xA9], [CHR 0xE2, CHR 0x80, CHR 0xAF],
      [CHR 0xE2, CHR 0x81, CHR 0x9F], [CHR 0xE3, CHR 0x80, CHR 0x80]]"

definition is_whitespace :: "string \<Rightarrow> bool" where
  "is_whitespace c \<longleftrightarrow> c \<in> set white_space"

text \<open>\<^verbatim>\<open>str::trim\<close>, \<^verbatim>\<open>str::split_whitespace\<close> and \<^verbatim>\<open>str::starts_with\<close>.\<close>

definition trim_end :: "('a \<Rightarrow> bool) \<Rightarrow> 'a list \<Rightarrow> 'a list" where
  "trim_end P xs = rev (dropWhile P (rev xs))"

definition trim :: "string \<Rightarrow> string" where
  "trim s = concat (trim_end is_whitespace (dropWhile is_whitespace (chars s)))"

definition split_whitespace :: "string \<Rightarrow> string list" where
  "split_whitespace s = filter (\<lambda>w. w \<noteq> []) (map concat (split_on is_whitespace (chars s)))"

definition starts_with :: "string \<Rightarrow> string \<Rightarrow> bool" where
  "starts_with s p \<longleftrightarrow> take (length p) s = p"

lemma starts_with_append [simp]: "starts_with (p @ s) p"
  by (simp add: starts_with_def)

text \<open>Two prefixes of one string agree on their common length.\<close>

lemma starts_with_both:
  "starts_with s p \<Longrightarrow> starts_with s q \<Longrightarrow> take (length q) p = take (length p) q"
  unfolding starts_with_def by (metis min.commute take_take)

lemma trim_empty [simp]: "trim [] = []"
  by (simp add: trim_def trim_end_def)

lemma split_whitespace_nonempty: "w \<in> set (split_whitespace s) \<Longrightarrow> w \<noteq> []"
  by (simp add: split_whitespace_def)


lemma utf8_valid_trim:
  assumes "utf8_valid s"
  shows "utf8_valid (trim s)"
  unfolding trim_def
  by (rule utf8_valid_part [OF assms]) (auto simp: trim_end_def dest!: set_dropWhileD)

lemma utf8_valid_words:
  assumes "utf8_valid s"
  shows "list_all utf8_valid (split_whitespace s)"
proof -
  have "utf8_valid (concat p)" if "p \<in> set (split_on is_whitespace (chars s))" for p
    using set_split_on [OF that] by (rule utf8_valid_part [OF assms])
  then show ?thesis by (auto simp: split_whitespace_def list_all_iff)
qed


text \<open>On ASCII text the characters are the bytes.\<close>

definition is_space :: "char \<Rightarrow> bool" where
  "is_space c \<longleftrightarrow> is_whitespace [c]"

lemma is_space_simps [simp]:
  "is_space CHR '' ''" "is_space CHR 0x0A" "is_space CHR 0x0D" "is_space CHR 0x09"
  by (simp_all add: is_space_def is_whitespace_def white_space_def)

lemma is_space_iff:
  "is_space c \<longleftrightarrow> c \<in> {CHR 0x09, CHR 0x0A, CHR 0x0B, CHR 0x0C, CHR 0x0D, CHR 0x20}"
  by (auto simp: is_space_def is_whitespace_def white_space_def)

lemma split_on_map: "split_on P (map f xs) = map (map f) (split_on (P \<circ> f) xs)"
proof (induction xs)
  case (Cons x xs)
  then show ?case by (cases "split_on (P \<circ> f) xs") (simp_all add: comp_def)
qed simp

lemma concat_singletons: "concat (map (\<lambda>c. [c]) w) = w"
  by (induction w) simp_all

lemma split_whitespace_ascii:
  "ascii s \<Longrightarrow> split_whitespace s = filter (\<lambda>w. w \<noteq> []) (split_on is_space s)"
  by (simp add: split_whitespace_def chars_ascii split_on_map comp_def is_space_def [abs_def]
      concat_singletons)

lemma split_whitespace_words:
  assumes "ascii w" and "w \<noteq> []" and "\<forall>c \<in> set w. \<not> is_space c"
    and "list_all (\<lambda>t. ascii t \<and> t \<noteq> [] \<and> (\<forall>c \<in> set t. \<not> is_space c)) ts"
  shows "ascii (w @ concat (map (\<lambda>t. '' '' @ t) ts)) \<and>
     split_on is_space (w @ concat (map (\<lambda>t. '' '' @ t) ts)) = w # ts \<and>
     split_whitespace (w @ concat (map (\<lambda>t. '' '' @ t) ts)) = w # ts"
proof -
  have a: "ascii (w @ concat (map (\<lambda>t. '' '' @ t) ts))"
    using assms(1,4) by (induction ts arbitrary: w) (auto simp: is_ascii_def byte_of_def list_all_iff)
  have s: "split_on is_space (w @ concat (map (\<lambda>t. '' '' @ t) ts)) = w # ts"
    using assms(3,4)
  proof (induction ts arbitrary: w)
    case Nil
    then show ?case by (simp add: split_on_no_sep)
  next
    case (Cons t ts)
    then have "split_on is_space (t @ concat (map (\<lambda>t. '' '' @ t) ts)) = t # ts" by simp
    with Cons.prems show ?case by (simp add: split_on_append_sep)
  qed
  have "filter (\<lambda>w. w \<noteq> []) (w # ts) = w # ts"
    using assms(2,4) by (auto simp: list_all_iff intro: filter_True)
  with a s show ?thesis by (simp add: split_whitespace_ascii)
qed

lemma dropWhile_map_single: "dropWhile P (map f xs) = map f (dropWhile (P \<circ> f) xs)"
  by (induction xs) auto

lemma trim_end_map_single: "trim_end P (map f xs) = map f (trim_end (P \<circ> f) xs)"
  by (simp add: trim_end_def rev_map dropWhile_map_single)

lemma trim_ascii: "ascii s \<Longrightarrow> trim s = trim_end is_space (dropWhile is_space s)"
  by (simp add: trim_def chars_ascii dropWhile_map_single trim_end_map_single comp_def
      is_space_def [abs_def] concat_singletons)

lemma trim_line:
  assumes "ascii s" and "s \<noteq> []" and "\<not> is_space (hd s)" and "\<not> is_space (last s)"
  shows "trim (s @ [CHR 0x0A]) = s"
proof -
  have "dropWhile is_space (s @ [CHR 0x0A]) = s @ [CHR 0x0A]"
    using assms by (cases s) simp_all
  moreover have "dropWhile is_space (rev s) = rev s"
    using assms(2,4) by (cases s rule: rev_cases) simp_all
  moreover have "ascii (s @ [CHR 0x0A])" using assms(1) by (simp add: is_ascii_def byte_of_def)
  ultimately show ?thesis by (simp add: trim_ascii trim_end_def)
qed


section \<open>Case mappings\<close>

definition ascii_upper :: "char \<Rightarrow> char" where
  "ascii_upper c = (if 97 \<le> byte_of c \<and> byte_of c \<le> 122 then char_of (byte_of c - 32) else c)"

definition ascii_lower :: "char \<Rightarrow> char" where
  "ascii_lower c = (if 65 \<le> byte_of c \<and> byte_of c \<le> 90 then char_of (byte_of c + 32) else c)"

text \<open>
  \<^verbatim>\<open>str::to_uppercase\<close> and \<^verbatim>\<open>str::to_lowercase\<close>: character by character; \<open>tbl\<close> is the
  library's table for the characters beyond ASCII.
\<close>

definition map_case :: "(char \<Rightarrow> char) \<Rightarrow> (string \<Rightarrow> string) \<Rightarrow> string \<Rightarrow> string" where
  "map_case f tbl s =
     concat (map (\<lambda>c. case c of [b] \<Rightarrow> if is_ascii b then [f b] else tbl c | _ \<Rightarrow> tbl c) (chars s))"

definition to_uppercase :: "(string \<Rightarrow> string) \<Rightarrow> string \<Rightarrow> string" where
  "to_uppercase tbl s = map_case ascii_upper tbl s"

definition to_lowercase :: "(string \<Rightarrow> string) \<Rightarrow> string \<Rightarrow> string" where
  "to_lowercase tbl s = map_case ascii_lower tbl s"

definition has_lower :: "string \<Rightarrow> bool" where
  "has_lower s \<longleftrightarrow> list_ex (\<lambda>c. 97 \<le> byte_of c \<and> byte_of c \<le> 122) s"

text \<open>The upper-case form has no lower-case letter of ASCII, if no entry of the table has one.\<close>

lemma to_uppercase_no_lower:
  assumes "\<And>c. \<not> has_lower (tbl c)"
  shows "\<not> has_lower (to_uppercase tbl s)"
proof -
  have "\<not> has_lower [ascii_upper b]" for b
    by (auto simp: has_lower_def ascii_upper_def byte_of_def)
  then have "\<not> has_lower (case c of [b] \<Rightarrow> if is_ascii b then [ascii_upper b] else tbl c | _ \<Rightarrow> tbl c)" for c
    using assms by (auto split: list.splits)
  then show ?thesis
    by (auto simp: to_uppercase_def map_case_def has_lower_def list_ex_iff)
qed

text \<open>It is valid text, if the entries of the table are.\<close>

lemma utf8_valid_to_uppercase:
  assumes "\<And>c. utf8_valid (tbl c)"
  shows "utf8_valid (to_uppercase tbl s)"
proof -
  have "utf8_valid [ascii_upper b]" if "is_ascii b" for b
    using that by (intro utf8_valid_ascii) (auto simp: is_ascii_def ascii_upper_def byte_of_def)
  then have "utf8_valid (case c of [b] \<Rightarrow> if is_ascii b then [ascii_upper b] else tbl c | _ \<Rightarrow> tbl c)" for c
    using assms by (auto split: list.splits)
  then show ?thesis
    unfolding to_uppercase_def map_case_def by (intro utf8_valid_concat) (simp add: list_all_iff)
qed

definition eq_ignore_ascii_case :: "string \<Rightarrow> string \<Rightarrow> bool" where
  "eq_ignore_ascii_case s t \<longleftrightarrow> map ascii_lower s = map ascii_lower t"

lemma concat_map_single: "\<forall>x \<in> set xs. g x = [f x] \<Longrightarrow> concat (map g xs) = map f xs"
  by (induction xs) auto

lemma map_case_ascii: "ascii s \<Longrightarrow> map_case f tbl s = map f s"
  by (auto simp: map_case_def chars_ascii comp_def list_all_iff intro: concat_map_single)

lemma to_uppercase_ascii: "ascii s \<Longrightarrow> to_uppercase tbl s = map ascii_upper s"
  by (simp add: to_uppercase_def map_case_ascii)

lemma to_lowercase_ascii: "ascii s \<Longrightarrow> to_lowercase tbl s = map ascii_lower s"
  by (simp add: to_lowercase_def map_case_ascii)

lemma byte_of_char_of: "n < 256 \<Longrightarrow> byte_of (char_of n) = n"
  by (simp add: byte_of_def)

lemma ascii_upper_not_lower: "\<not> (97 \<le> byte_of (ascii_upper c) \<and> byte_of (ascii_upper c) \<le> 122)"
  by (auto simp: ascii_upper_def byte_of_char_of)


section \<open>Decimal numbers\<close>

definition digit_char :: "nat \<Rightarrow> char" where
  "digit_char d = char_of (48 + d)"

definition is_digit :: "char \<Rightarrow> bool" where
  "is_digit c \<longleftrightarrow> 48 \<le> byte_of c \<and> byte_of c \<le> 57"

definition digit_val :: "char \<Rightarrow> nat" where
  "digit_val c = byte_of c - 48"

lemma digit_char_simps [simp]:
  "d < 10 \<Longrightarrow> is_digit (digit_char d)"
  "d < 10 \<Longrightarrow> digit_val (digit_char d) = d"
  by (simp_all add: digit_char_def is_digit_def digit_val_def byte_of_char_of)

text \<open>\<^verbatim>\<open>Display\<close> of an unsigned integer: its decimal digits without leading zeros.\<close>

fun show_nat :: "nat \<Rightarrow> string" where
  "show_nat n = (if n < 10 then [digit_char n] else show_nat (n div 10) @ [digit_char (n mod 10)])"

declare show_nat.simps [simp del]

definition digits_val :: "string \<Rightarrow> nat" where
  "digits_val s = foldl (\<lambda>n c. 10 * n + digit_val c) 0 s"

lemma foldl_digits: "foldl (\<lambda>n c. 10 * n + digit_val c) a s = a * 10 ^ length s + digits_val s"
proof (induction s arbitrary: a rule: rev_induct)
  case (snoc c s)
  have "foldl (\<lambda>n c. 10 * n + digit_val c) a (s @ [c])
      = 10 * (a * 10 ^ length s + digits_val s) + digit_val c"
    by (simp add: snoc.IH [of a])
  also have "\<dots> = a * 10 ^ length (s @ [c]) + (10 * digits_val s + digit_val c)"
    by (simp add: algebra_simps)
  also have "10 * digits_val s + digit_val c = digits_val (s @ [c])"
    by (simp add: digits_val_def)
  finally show ?case .
qed (simp add: digits_val_def)

lemma digits_val_simps [simp]:
  "digits_val [] = 0"
  "digits_val (s @ [c]) = 10 * digits_val s + digit_val c"
  by (simp_all add: digits_val_def)

lemma digits_val_append: "digits_val (s @ t) = digits_val s * 10 ^ length t + digits_val t"
  by (metis digits_val_def foldl_append foldl_digits)

lemma digits_val_Cons: "digits_val (c # s) = digit_val c * 10 ^ length s + digits_val s"
  using digits_val_append [of "[c]" s] by (simp add: digits_val_def)

lemma digits_val_replicate_zero [simp]: "digits_val (replicate k (CHR ''0'')) = 0"
  by (induction k) (auto simp: digits_val_Cons digit_val_def byte_of_def)

lemma show_nat_digits: "list_all is_digit (show_nat n)"
proof (induction n rule: show_nat.induct)
  case (1 n)
  then show ?case by (simp add: show_nat.simps [of n])
qed

lemma show_nat_val [simp]: "digits_val (show_nat n) = n"
proof (induction n rule: show_nat.induct)
  case (1 n)
  then show ?case
    using digits_val_simps(2) [of "[]"] by (simp add: show_nat.simps [of n])
qed

lemma show_nat_not_Nil [simp]: "show_nat n \<noteq> []"
  by (subst show_nat.simps) simp

text \<open>
  \<^verbatim>\<open>FromStr\<close> of an unsigned integer below \<open>bound\<close>: an optional plus sign, at least one
  digit and nothing else; too large a value is an error.
\<close>

definition parse_uint :: "nat \<Rightarrow> string \<Rightarrow> nat option" where
  "parse_uint bound s =
     (let ds = (case s of c # cs \<Rightarrow> if c = CHR ''+'' then cs else s | [] \<Rightarrow> [])
      in if ds = [] \<or> \<not> list_all is_digit ds then None
         else if digits_val ds < bound then Some (digits_val ds) else None)"

lemma not_digit_punct [simp]:
  "\<not> is_digit CHR ''+''" "\<not> is_digit CHR ''-''" "\<not> is_digit CHR ''|''" "\<not> is_digit CHR ''.''"
  "\<not> is_digit CHR ''e''" "\<not> is_digit CHR ''E''" "\<not> is_digit CHR '':''"
  by (simp_all add: is_digit_def byte_of_def)

lemma show_nat_hd: "\<exists>c cs. show_nat n = c # cs \<and> is_digit c"
  using show_nat_digits [of n] by (cases "show_nat n") auto

lemma parse_uint_digits:
  assumes "list_all is_digit s" and "s \<noteq> []"
  shows "parse_uint bound s = (if digits_val s < bound then Some (digits_val s) else None)"
  using assms by (cases s) (auto simp: parse_uint_def Let_def)

lemma parse_show_nat: "n < bound \<Longrightarrow> parse_uint bound (show_nat n) = Some n"
  by (simp add: parse_uint_digits show_nat_digits)

lemma parse_uint_bound: "parse_uint bound s = Some n \<Longrightarrow> n < bound"
  by (auto simp: parse_uint_def Let_def split: if_splits)

definition show_u32 :: "u32 \<Rightarrow> string" where
  "show_u32 w = show_nat (unat w)"

definition parse_u32 :: "string \<Rightarrow> u32 option" where
  "parse_u32 s = map_option of_nat (parse_uint (2 ^ 32) s)"

text \<open>A signed number of 32 bits in two's complement.\<close>

definition show_i32 :: "u32 \<Rightarrow> string" where
  "show_i32 w = (if unat w < 2 ^ 31 then show_nat (unat w) else ''-'' @ show_nat (2 ^ 32 - unat w))"

definition show_u64 :: "u64 \<Rightarrow> string" where
  "show_u64 w = show_nat (unat w)"

definition parse_u64 :: "string \<Rightarrow> u64 option" where
  "parse_u64 s = map_option of_nat (parse_uint (2 ^ 64) s)"

text \<open>
  The interface of a textual field: printing never produces the field separator, and
  parsing inverts printing on the values \<open>ok\<close> accepts.
\<close>

locale text_field =
  fixes print :: "'a \<Rightarrow> string"
    and parse :: "string \<Rightarrow> 'a option"
    and ok :: "'a \<Rightarrow> bool"
  assumes parse_print: "ok x \<Longrightarrow> parse (print x) = Some x"
    and print_no_bar: "CHR ''|'' \<notin> set (print x)"
begin

lemma print_inj: "ok x \<Longrightarrow> ok y \<Longrightarrow> print x = print y \<Longrightarrow> x = y"
  using parse_print by (metis option.inject)

lemma print_no_sep: "\<forall>c \<in> set (print x). \<not> c = CHR ''|''"
  using print_no_bar by auto

lemma split_print [simp]: "split_on (\<lambda>c. c = CHR ''|'') (print x) = [print x]"
  by (rule split_on_no_sep) (rule print_no_sep)

lemma split_print_sep [simp]:
  "split_on (\<lambda>c. c = CHR ''|'') (print x @ CHR ''|'' # ys) =
   print x # split_on (\<lambda>c. c = CHR ''|'') ys"
  by (rule split_on_append_sep) (use print_no_sep in auto)

end

lemma show_nat_no_bar: "CHR ''|'' \<notin> set (show_nat n)"
  using show_nat_digits [of n] not_digit_punct(3) unfolding list_all_iff by blast

interpretation u32_field: text_field show_u32 parse_u32 "\<lambda>_. True"
proof unfold_locales
  fix x :: u32
  have "unat x < 2 ^ 32" using unsigned_less [of x] by simp
  then show "parse_u32 (show_u32 x) = Some x"
    by (simp add: show_u32_def parse_u32_def parse_show_nat)
qed (simp add: show_u32_def show_nat_no_bar)

interpretation u64_field: text_field show_u64 parse_u64 "\<lambda>_. True"
proof unfold_locales
  fix x :: u64
  have "unat x < 2 ^ 64" using unsigned_less [of x] by simp
  then show "parse_u64 (show_u64 x) = Some x"
    by (simp add: show_u64_def parse_u64_def parse_show_nat)
qed (simp add: show_u64_def show_nat_no_bar)

end
