(* ===== verification/Rust_F64.thy ===== *)
theory Rust_F64
  imports Rust_Text
begin

text \<open>
  Rust's \<^verbatim>\<open>f64\<close> (IEEE 754 binary64) as far as the program uses it: comparison,
  multiplication, the cast \<^verbatim>\<open>as u32\<close>, decimal literals, \<^verbatim>\<open>Display\<close> and \<^verbatim>\<open>FromStr\<close>.
  A value is its 64 bits. The low 63 bits are the magnitude code \<open>b\<close>; the magnitude of a
  finite value is the natural number \<open>scaled b\<close> in units of \<open>2 ^ -1074\<close>, so all
  arithmetic is exact on \<open>nat\<close>, followed by one rounding to nearest even. NaN payloads
  are not distinguished: every operation that yields NaN yields the quiet one.
\<close>

type_synonym f64 = u64

section \<open>Codes and magnitudes\<close>

abbreviation inf_mag :: nat where
  "inf_mag \<equiv> 2047 * 2 ^ 52"

definition f64_sign :: "f64 \<Rightarrow> bool" where
  "f64_sign w \<longleftrightarrow> 2 ^ 63 \<le> unat w"

definition f64_mag :: "f64 \<Rightarrow> nat" where
  "f64_mag w = unat w mod 2 ^ 63"

definition f64_of :: "bool \<Rightarrow> nat \<Rightarrow> f64" where
  "f64_of s b = of_nat ((if s then 2 ^ 63 else 0) + b)"

definition f64_is_nan :: "f64 \<Rightarrow> bool" where
  "f64_is_nan w \<longleftrightarrow> inf_mag < f64_mag w"

definition f64_is_inf :: "f64 \<Rightarrow> bool" where
  "f64_is_inf w \<longleftrightarrow> f64_mag w = inf_mag"

definition f64_finite :: "f64 \<Rightarrow> bool" where
  "f64_finite w \<longleftrightarrow> f64_mag w < inf_mag"

definition f64_nan :: f64 where
  "f64_nan = f64_of False (inf_mag + 2 ^ 51)"

definition f64_unit :: nat where
  "f64_unit = 2 ^ 1074"

lemma f64_unit_pos [simp]: "0 < f64_unit"
  by (simp add: f64_unit_def)

definition scaled :: "nat \<Rightarrow> nat" where
  "scaled b = (let e = b div 2 ^ 52 in
     if e = 0 then b else (2 ^ 52 + b mod 2 ^ 52) * 2 ^ (e - 1))"

lemma f64_of_parts: "f64_of (f64_sign w) (f64_mag w) = w"
proof -
  have lt: "unat w < 2 ^ 64" using unsigned_less [of w] by simp
  show ?thesis
  proof (cases "2 ^ 63 \<le> unat w")
    case True
    then have "unat w mod 2 ^ 63 = unat w - 2 ^ 63"
      using lt by (subst le_mod_geq) auto
    with True show ?thesis
      by (simp add: f64_of_def f64_sign_def f64_mag_def)
  next
    case False
    then show ?thesis by (simp add: f64_of_def f64_sign_def f64_mag_def)
  qed
qed

lemma len64: "LENGTH(64) = 64"
  by simp

lemma unat_f64_of: "b < 2 ^ 63 \<Longrightarrow> unat (f64_of s b) = (if s then 2 ^ 63 else 0) + b"
proof -
  assume "b < 2 ^ 63"
  then have "(if s then 2 ^ 63 else 0) + b < 2 ^ 64" by simp
  then show ?thesis unfolding f64_of_def unat_of_nat by (simp only: len64 mod_less)
qed

lemma f64_of_simps [simp]:
  assumes "b < 2 ^ 63"
  shows "f64_sign (f64_of s b) = s" and "f64_mag (f64_of s b) = b"
  using assms by (auto simp: f64_sign_def f64_mag_def unat_f64_of)

lemma f64_mag_less: "f64_mag w < 2 ^ 63"
  by (simp add: f64_mag_def)


section \<open>Rounding to nearest, ties to even\<close>

definition rne :: "nat \<Rightarrow> nat \<Rightarrow> nat" where
  "rne a d = (let q = a div d; r = a mod d in if 2 * r < d \<or> 2 * r = d \<and> even q then q else q + 1)"

fun bit_len :: "nat \<Rightarrow> nat" where
  "bit_len n = (if n = 0 then 0 else Suc (bit_len (n div 2)))"

declare bit_len.simps [simp del]

text \<open>The code of the value nearest to \<open>n / d\<close>, both in units of \<open>2 ^ -1074\<close>.\<close>

definition round_mag :: "nat \<Rightarrow> nat \<Rightarrow> nat" where
  "round_mag n d = (let e = bit_len (n div d) - 53
     in min (e * 2 ^ 52 + rne n (d * 2 ^ e)) inf_mag)"

lemma bit_len_upper: "n < 2 ^ bit_len n"
proof (induction n rule: bit_len.induct)
  case (1 n)
  show ?case
  proof (cases "n = 0")
    case False
    with "1.IH" have "n div 2 < 2 ^ bit_len (n div 2)" by simp
    then have "n < 2 * 2 ^ bit_len (n div 2)" by linarith
    with False show ?thesis by (simp add: bit_len.simps [of n])
  qed simp
qed

lemma bit_len_lower: "0 < n \<Longrightarrow> 2 ^ (bit_len n - 1) \<le> n"
proof (induction n rule: bit_len.induct)
  case (1 n)
  show ?case
  proof (cases "n div 2 = 0")
    case True
    with "1.prems" show ?thesis by (simp add: bit_len.simps [of n] bit_len.simps [of 0])
  next
    case False
    with "1.IH" "1.prems" have IH: "2 ^ (bit_len (n div 2) - 1) \<le> n div 2" by simp
    obtain k where k: "bit_len (n div 2) = Suc k"
      using False by (subst (asm) bit_len.simps) (metis bit_len.simps)
    have "2 * 2 ^ k \<le> n" using IH k by simp
    with "1.prems" k show ?thesis by (simp add: bit_len.simps [of n])
  qed
qed

lemma bit_len_zero [simp]: "bit_len 0 = 0"
  by (simp add: bit_len.simps)

lemma bit_len_le: "n < 2 ^ k \<Longrightarrow> bit_len n \<le> k"
proof (cases "n = 0")
  case False
  assume n: "n < 2 ^ k"
  from False have "2 ^ (bit_len n - 1) \<le> n" by (intro bit_len_lower) simp
  from this n have "(2::nat) ^ (bit_len n - 1) < 2 ^ k" by (rule le_less_trans)
  then have "bit_len n - 1 < k" by (rule power_less_imp_less_exp [rotated]) simp
  then show "bit_len n \<le> k" by simp
qed simp

lemma bit_len_ge: "2 ^ k \<le> n \<Longrightarrow> k < bit_len n"
proof -
  assume "2 ^ k \<le> n"
  then have "(2::nat) ^ k < 2 ^ bit_len n" using bit_len_upper [of n] by linarith
  then show ?thesis by simp
qed

lemma bit_len_mono: "m \<le> n \<Longrightarrow> bit_len m \<le> bit_len n"
  using bit_len_upper [of n] by (intro bit_len_le) simp

lemma bit_len_eq: "2 ^ k \<le> n \<Longrightarrow> n < 2 ^ Suc k \<Longrightarrow> bit_len n = Suc k"
  using bit_len_ge [of k n] bit_len_le [of n "Suc k"] by simp

lemma rne_upper:
  assumes "0 < d"
  shows "2 * a \<le> (2 * rne a d + 1) * d \<and> (2 * a = (2 * rne a d + 1) * d \<longrightarrow> even (rne a d))"
proof -
  have a: "a = (a div d) * d + a mod d" by simp
  have r: "a mod d < d" using assms by simp
  show ?thesis
  proof (cases "2 * (a mod d) < d \<or> 2 * (a mod d) = d \<and> even (a div d)")
    case True
    then have q: "rne a d = a div d" by (simp add: rne_def)
    have "2 * a = 2 * (a div d) * d + 2 * (a mod d)" using a by linarith
    with True show ?thesis unfolding q by (auto simp: algebra_simps)
  next
    case False
    then have q: "rne a d = a div d + 1" by (auto simp: rne_def Let_def)
    have "2 * a = 2 * (a div d) * d + 2 * (a mod d)" using a by linarith
    moreover have "(2 * rne a d + 1) * d = 2 * (a div d) * d + 3 * d"
      by (simp add: q algebra_simps)
    ultimately show ?thesis using r by linarith
  qed
qed

lemma rne_lower:
  assumes "0 < d"
  shows "2 * rne a d * d \<le> 2 * a + d \<and> (2 * rne a d * d = 2 * a + d \<longrightarrow> even (rne a d))"
proof -
  have a: "a = (a div d) * d + a mod d" by simp
  have e: "2 * a = 2 * (a div d) * d + 2 * (a mod d)" using a by linarith
  show ?thesis
  proof (cases "2 * (a mod d) < d \<or> 2 * (a mod d) = d \<and> even (a div d)")
    case True
    then have q: "rne a d = a div d" by (simp add: rne_def)
    show ?thesis unfolding q using e assms by linarith
  next
    case False
    then have q: "rne a d = a div d + 1" by (auto simp: rne_def Let_def)
    have "2 * rne a d * d = 2 * (a div d) * d + 2 * d" by (simp add: q algebra_simps)
    with False e q show ?thesis by auto
  qed
qed

lemma rne_mono:
  assumes "0 < d" and "0 < d'" and le: "a * d' \<le> a' * d"
  shows "rne a d \<le> rne a' d'"
proof (rule ccontr)
  let ?k = "rne a d" and ?m = "rne a' d'"
  assume "\<not> ?k \<le> ?m"
  then obtain j where j: "?k = ?m + 1 + j"
    by (metis add.assoc less_eqE not_le Suc_eq_plus1 Suc_leI add.commute)
  have lo: "2 * ?k * d \<le> 2 * a + d" and up: "2 * a' \<le> (2 * ?m + 1) * d'"
    using rne_lower [OF assms(1), of a] rne_upper [OF assms(2), of a'] by auto
  have "2 * ?k * d * d' \<le> 2 * (a * d') + d * d'"
    using mult_right_mono [OF lo, of d'] by (simp add: algebra_simps)
  also have "\<dots> \<le> 2 * (a' * d) + d * d'" using le by simp
  also have "\<dots> \<le> (2 * ?m + 1) * d' * d + d * d'"
    using mult_right_mono [OF up, of d] by (simp add: algebra_simps)
  finally have "2 * ?k * (d * d') \<le> (2 * ?m + 2) * (d * d')"
    by (simp add: algebra_simps)
  then have "2 * ?k \<le> 2 * ?m + 2" using assms(1,2) by (metis mult_le_cancel2 nat_0_less_mult_iff)
  then have "?k \<le> ?m + 1" by simp
  with j have k: "?k = ?m + 1" by simp
  have eq1: "2 * ?k * d = 2 * a + d"
  proof (rule antisym [OF lo], rule ccontr)
    assume "\<not> 2 * a + d \<le> 2 * ?k * d"
    then have "2 * ?k * d < 2 * a + d" by simp
    then have "2 * ?k * d * d' < (2 * a + d) * d'" using assms(2) by simp
    also have "\<dots> \<le> 2 * (a' * d) + d * d'" using le by (simp add: algebra_simps)
    also have "\<dots> \<le> (2 * ?m + 1) * d' * d + d * d'"
      using mult_right_mono [OF up, of d] by (simp add: algebra_simps)
    finally show False by (simp add: k algebra_simps)
  qed
  have eq2: "2 * a' = (2 * ?m + 1) * d'"
  proof (rule antisym [OF up], rule ccontr)
    assume "\<not> (2 * ?m + 1) * d' \<le> 2 * a'"
    then have "2 * a' * d < (2 * ?m + 1) * d' * d" using assms(1) by simp
    moreover have "(2 * ?m + 1) * d * d' = 2 * a * d'"
      using eq1 by (simp add: k algebra_simps)
    ultimately show False using le by (simp add: algebra_simps)
  qed
  from eq1 have "even ?k" using rne_lower [OF assms(1), of a] by simp
  moreover from eq2 have "even ?m" using rne_upper [OF assms(2), of a'] by simp
  ultimately show False using k by simp
qed

lemma rne_exact [simp]: "0 < d \<Longrightarrow> rne (k * d) d = k"
  by (simp add: rne_def)

lemma rne_le: "0 < d \<Longrightarrow> a \<le> k * d \<Longrightarrow> rne a d \<le> k"
  using rne_mono [of d d a "k * d"] by simp

lemma rne_ge: "0 < d \<Longrightarrow> k * d \<le> a \<Longrightarrow> k \<le> rne a d"
  using rne_mono [of d d "k * d" a] by simp

lemma rne_scale: "0 < k \<Longrightarrow> 0 < d \<Longrightarrow> rne (a * k) (d * k) = rne a d"
  by (intro antisym rne_mono) (simp_all add: algebra_simps)

lemma round_mag_scale: "0 < k \<Longrightarrow> 0 < d \<Longrightarrow> round_mag (n * k) (d * k) = round_mag n d"
  using rne_scale [of k "d * 2 ^ (bit_len (n div d) - 53)" n]
  by (simp add: round_mag_def Let_def algebra_simps)

lemma round_mag_mono:
  assumes "0 < d" and "0 < d'" and le: "n * d' \<le> n' * d"
  shows "round_mag n d \<le> round_mag n' d'"
proof -
  define e e' where "e = bit_len (n div d) - 53" and "e' = bit_len (n' div d') - 53"
  have "n div d = (n * d') div (d * d')" using assms(2) by simp
  also have "\<dots> \<le> (n' * d) div (d * d')" using le by (rule div_le_mono)
  also have "\<dots> = n' div d'" using assms(1) by (simp add: mult.commute)
  finally have q: "n div d \<le> n' div d'" .
  then have ee: "e \<le> e'" unfolding e_def e'_def by (intro diff_le_mono bit_len_mono)
  have "e * 2 ^ 52 + rne n (d * 2 ^ e) \<le> e' * 2 ^ 52 + rne n' (d' * 2 ^ e')"
  proof (cases "e = e'")
    case True
    have "n * (d' * 2 ^ e) \<le> n' * (d * 2 ^ e)" using le by (simp add: algebra_simps)
    with assms have "rne n (d * 2 ^ e) \<le> rne n' (d' * 2 ^ e)" by (intro rne_mono) auto
    with True show ?thesis by simp
  next
    case False
    with ee have lt: "e < e'" by simp
    have "n div d < 2 ^ (e + 53)"
    proof -
      have "n div d < 2 ^ bit_len (n div d)" by (rule bit_len_upper)
      also have "\<dots> \<le> 2 ^ (e + 53)" unfolding e_def by (rule power_increasing) auto
      finally show ?thesis .
    qed
    then have "n < 2 ^ (e + 53) * d" using assms(1) by (simp add: div_less_iff_less_mult)
    then have up: "rne n (d * 2 ^ e) \<le> 2 ^ 53"
      using assms(1) by (intro rne_le) (auto simp: power_add algebra_simps)
    have "0 < n' div d'" using lt unfolding e'_def by (cases "n' div d' = 0") auto
    then have "2 ^ (bit_len (n' div d') - 1) \<le> n' div d'" by (rule bit_len_lower)
    moreover have "bit_len (n' div d') - 1 = e' + 52" using lt unfolding e'_def by simp
    ultimately have "2 ^ (e' + 52) * d' \<le> n'"
      using assms(2) by (simp add: less_eq_div_iff_mult_less_eq)
    then have lo: "2 ^ 52 \<le> rne n' (d' * 2 ^ e')"
      using assms(2) by (intro rne_ge) (auto simp: power_add algebra_simps)
    show ?thesis using up lo lt by simp
  qed
  then show ?thesis unfolding round_mag_def e_def e'_def Let_def by linarith
qed

lemma round_mag_scaled:
  assumes "b \<le> inf_mag" and "0 < d"
  shows "round_mag (scaled b * d) d = b"
proof (cases "b div 2 ^ 52 = 0")
  case True
  then have b: "b < 2 ^ 53" by (simp add: div_eq_0_iff)
  with True have s: "scaled b = b" by (simp add: scaled_def)
  have "bit_len b \<le> 53" using b by (rule bit_len_le)
  with assms s show ?thesis by (simp add: round_mag_def Let_def)
next
  case False
  define E f where "E = b div 2 ^ 52 - 1" and "f = b mod 2 ^ 52"
  have f: "f < 2 ^ 52" by (simp add: f_def)
  have s: "scaled b = (2 ^ 52 + f) * 2 ^ E"
    using False by (simp add: scaled_def E_def f_def Let_def)
  have b: "b = E * 2 ^ 52 + (2 ^ 52 + f)"
  proof -
    have "b = (b div 2 ^ 52) * 2 ^ 52 + f" unfolding f_def by (rule div_mult_mod_eq [symmetric])
    moreover have "b div 2 ^ 52 = Suc E" using False by (simp add: E_def)
    ultimately show ?thesis by simp
  qed
  have "bit_len (scaled b) = Suc (52 + E)"
  proof (rule bit_len_eq)
    show "2 ^ (52 + E) \<le> scaled b" by (simp add: s power_add)
    have "(2 ^ 52 + f) * 2 ^ E < (2 ^ 53) * 2 ^ E" using f by simp
    then show "scaled b < 2 ^ Suc (52 + E)" by (simp add: s power_add)
  qed
  then have e: "bit_len (scaled b * d div d) - 53 = E" using assms(2) by simp
  have "rne (scaled b * d) (d * 2 ^ E) = 2 ^ 52 + f"
  proof -
    have "scaled b * d = (2 ^ 52 + f) * (d * 2 ^ E)" by (simp add: s algebra_simps)
    then show ?thesis using assms(2) by (simp only:) (rule rne_exact, simp)
  qed
  then have "round_mag (scaled b * d) d = min b inf_mag"
    unfolding round_mag_def Let_def e using b by simp
  with assms(1) show ?thesis by simp
qed

lemma scaled_less_iff:
  assumes "b \<le> inf_mag" and "c \<le> inf_mag"
  shows "scaled b < scaled c \<longleftrightarrow> b < c"
proof -
  have le: "scaled x \<le> scaled y \<Longrightarrow> x \<le> y" if "x \<le> inf_mag" "y \<le> inf_mag" for x y
    using round_mag_mono [of 1 1 "scaled x" "scaled y"]
      round_mag_scaled [OF that(1), of 1] round_mag_scaled [OF that(2), of 1] by simp
  have inj: "scaled b = scaled c \<Longrightarrow> b = c"
    using le [OF assms] le [OF assms(2,1)] by (metis antisym order_refl)
  show ?thesis
    using le [OF assms] le [OF assms(2,1)] inj by (metis le_less not_le)
qed

lemma round_mag_le_inf: "round_mag n d \<le> inf_mag"
  by (simp add: round_mag_def Let_def)

lemma round_mag_bits: "round_mag n d < 2 ^ 63"
  using round_mag_le_inf [of n d] by simp

section \<open>Arithmetic, comparison and casts\<close>

definition f64_key :: "f64 \<Rightarrow> int" where
  "f64_key w = (if f64_sign w then - int (f64_mag w) else int (f64_mag w))"

text \<open>The operators \<^verbatim>\<open><\<close> and \<^verbatim>\<open><=\<close>: false when an operand is NaN; the codes are in the order of the values.\<close>

definition f64_lt :: "f64 \<Rightarrow> f64 \<Rightarrow> bool" where
  "f64_lt x y \<longleftrightarrow> \<not> f64_is_nan x \<and> \<not> f64_is_nan y \<and> f64_key x < f64_key y"

definition f64_le :: "f64 \<Rightarrow> f64 \<Rightarrow> bool" where
  "f64_le x y \<longleftrightarrow> \<not> f64_is_nan x \<and> \<not> f64_is_nan y \<and> f64_key x \<le> f64_key y"

definition f64_mul :: "f64 \<Rightarrow> f64 \<Rightarrow> f64" where
  "f64_mul x y =
     (if f64_is_nan x \<or> f64_is_nan y then f64_nan
      else let s = (f64_sign x \<noteq> f64_sign y)
      in if f64_is_inf x \<or> f64_is_inf y
         then if f64_mag x = 0 \<or> f64_mag y = 0 then f64_nan else f64_of s inf_mag
         else f64_of s (round_mag (scaled (f64_mag x) * scaled (f64_mag y)) (f64_unit)))"

text \<open>The saturating cast \<^verbatim>\<open>as u32\<close>: NaN and negative values give 0.\<close>

definition f64_to_u32 :: "f64 \<Rightarrow> u32" where
  "f64_to_u32 w =
     (if f64_is_nan w \<or> f64_sign w then 0
      else of_nat (min (scaled (f64_mag w) div f64_unit) (2 ^ 32 - 1)))"

text \<open>The decimal \<open>c * 10 ^ p\<close>, rounded: what a literal and \<^verbatim>\<open>FromStr\<close> denote.\<close>

definition dec_mag :: "nat \<Rightarrow> int \<Rightarrow> nat" where
  "dec_mag c p = (if 0 \<le> p then round_mag (c * 10 ^ nat p * f64_unit) 1
                  else round_mag (c * f64_unit) (10 ^ nat (- p)))"

definition f64_lit :: "nat \<Rightarrow> int \<Rightarrow> f64" where
  "f64_lit c p = f64_of False (dec_mag c p)"

lemma dec_mag_le_inf: "dec_mag c p \<le> inf_mag"
  unfolding dec_mag_def using round_mag_le_inf by presburger

lemma dec_mag_bits [simp]: "dec_mag c p < 2 ^ 63"
  using dec_mag_le_inf [of c p] by simp

lemma f64_mag_lit [simp]: "f64_mag (f64_lit c p) = dec_mag c p"
  unfolding f64_lit_def by (rule f64_of_simps(2)) (rule dec_mag_bits)

lemma f64_sign_lit [simp]: "\<not> f64_sign (f64_lit c p)"
  unfolding f64_lit_def using f64_of_simps(1) [OF dec_mag_bits] by blast

text \<open>The codes order the finite values and infinity as their magnitudes do.\<close>

lemma f64_lt_scaled:
  assumes "\<not> f64_is_nan x" and "\<not> f64_is_nan y" and "\<not> f64_sign x" and "\<not> f64_sign y"
  shows "f64_lt x y \<longleftrightarrow> scaled (f64_mag x) < scaled (f64_mag y)"
  using assms scaled_less_iff [of "f64_mag x" "f64_mag y"]
  by (simp add: f64_lt_def f64_key_def f64_is_nan_def not_less)

lemma dec_mag_integer: "c * f64_unit = scaled b \<Longrightarrow> b \<le> inf_mag \<Longrightarrow> dec_mag c 0 = b"
  using round_mag_scaled [of b 1] by (simp add: dec_mag_def)

lemma dec_mag_0 [simp]: "dec_mag 0 0 = 0"
  by (rule dec_mag_integer) (simp_all add: scaled_def)

lemma integer_mag:
  assumes "c = (2 ^ 52 + f) * 2 ^ e div 2 ^ 52" and "2 ^ 52 dvd (2 ^ 52 + f) * 2 ^ e"
    and "f < 2 ^ 52" and "e \<le> 1023"
  shows "dec_mag c 0 = (1023 + e) * 2 ^ 52 + f"
    and "scaled ((1023 + e) * 2 ^ 52 + f) = c * f64_unit"
proof -
  have d: "((1023 + e) * 2 ^ 52 + f) div 2 ^ 52 = 1023 + e"
    using assms(3) by (metis add.right_neutral div_less div_mult_self3 power_not_zero zero_neq_numeral)
  have m: "((1023 + e) * 2 ^ 52 + f) mod 2 ^ 52 = f"
    using assms(3) by (metis mod_less mod_mult_self3)
  have c: "c * 2 ^ 52 = (2 ^ 52 + f) * 2 ^ e" using assms(1,2) by simp
  have "scaled ((1023 + e) * 2 ^ 52 + f) = (2 ^ 52 + f) * 2 ^ (1022 + e)"
    unfolding scaled_def Let_def d m by (simp del: power_numeral)
  also have "\<dots> = (c * 2 ^ 52) * 2 ^ 1022" by (simp only: c power_add mult_ac)
  also have "\<dots> = c * (2 ^ 52 * 2 ^ 1022)" by (simp only: mult.assoc)
  also have "2 ^ 52 * 2 ^ 1022 = f64_unit" unfolding f64_unit_def by (simp only: power_add [symmetric]) simp
  finally show s: "scaled ((1023 + e) * 2 ^ 52 + f) = c * f64_unit" .
  have "f \<le> 2 ^ 52" using assms(3) by simp
  then have "(1023 + e) * 2 ^ 52 + f \<le> (1023 + e) * 2 ^ 52 + 2 ^ 52" by simp
  also have "\<dots> \<le> 2046 * 2 ^ 52 + 2 ^ 52" using assms(4) by simp
  finally have "(1023 + e) * 2 ^ 52 + f \<le> inf_mag" by simp
  with s show "dec_mag c 0 = (1023 + e) * 2 ^ 52 + f" by (intro dec_mag_integer) simp_all
qed

lemma dec_mag_1: "dec_mag 1 0 = 1023 * 2 ^ 52"
  using integer_mag(1) [of 1 0 0] by simp

lemma dec_mag_1000: "dec_mag 1000 0 = 1032 * 2 ^ 52 + 4292493394837504"
  using integer_mag(1) [of 1000 4292493394837504 9] by simp

lemma dec_mag_5000: "dec_mag 5000 0 = 1035 * 2 ^ 52 + 993958511509504"
  using integer_mag(1) [of 5000 993958511509504 12] by simp


text \<open>
  A product of a value below one and a positive integer stays below the integer: rounding
  does not reach it. This is where the ranges of the generator's random draws come from.
\<close>

definition unit_interval :: "f64 \<Rightarrow> bool" where
  "unit_interval r \<longleftrightarrow> \<not> f64_sign r \<and> f64_mag r < 1023 * 2 ^ 52"

lemma unit_interval_lt_1: "unit_interval r \<longleftrightarrow> \<not> f64_sign r \<and> f64_lt r (f64_lit 1 0)"
  by (auto simp: unit_interval_def f64_lt_def f64_key_def f64_is_nan_def dec_mag_1 [unfolded One_nat_def])

lemma scaled_unit_interval: "unit_interval r \<Longrightarrow> scaled (f64_mag r) \<le> (2 ^ 53 - 1) * 2 ^ 1021"
proof -
  assume r: "unit_interval r"
  let ?b = "1022 * 2 ^ 52 + (2 ^ 52 - 1) :: nat"
  have d: "?b div 2 ^ 52 = 1022" and m: "?b mod 2 ^ 52 = 2 ^ 52 - 1" by simp_all
  have "scaled ?b = (2 ^ 53 - 1) * 2 ^ 1021"
    unfolding scaled_def Let_def d m by simp
  moreover have "scaled (f64_mag r) \<le> scaled ?b"
    using r scaled_less_iff [of ?b "f64_mag r"] by (simp add: unit_interval_def not_less)
  ultimately show ?thesis by simp
qed

lemma round_mag_shift:
  assumes "2 ^ l \<le> a" and "a < 2 ^ Suc l" and "52 \<le> l"
  shows "round_mag (a * 2 ^ k) 1 \<le> (l - 52 + k) * 2 ^ 52 + rne a (2 ^ (l - 52))"
proof -
  have "bit_len (a * 2 ^ k) = Suc (l + k)"
    using assms(1,2) by (intro bit_len_eq) (auto simp: power_add)
  then have e: "bit_len (a * 2 ^ k div 1) - 53 = l - 52 + k" using assms(3) by simp
  have "rne (a * 2 ^ k) (1 * 2 ^ (l - 52 + k)) = rne a (2 ^ (l - 52))"
    using rne_scale [of "2 ^ k" "2 ^ (l - 52)" a] by (simp add: power_add)
  then show ?thesis unfolding round_mag_def Let_def e by simp
qed

lemma mul_unit_bound:
  assumes "unit_interval r" and c: "scaled b = c * f64_unit" "b < inf_mag" "f64_mag y = b" "\<not> f64_sign y"
    and l: "2 ^ l \<le> (2 ^ 53 - 1) * c" "(2 ^ 53 - 1) * c < 2 ^ Suc l" "52 \<le> l"
    and fin: "(l - 52 + 1021) * 2 ^ 52 + rne ((2 ^ 53 - 1) * c) (2 ^ (l - 52)) < b"
  shows "f64_mag (f64_mul r y) < b" and "\<not> f64_sign (f64_mul r y)"
proof -
  let ?m = "round_mag (scaled (f64_mag r) * scaled b) f64_unit"
  have "f64_mag r < inf_mag" using assms(1) by (simp add: unit_interval_def)
  then have mul: "f64_mul r y = f64_of False ?m"
    using assms(1) c by (simp add: f64_mul_def f64_is_nan_def f64_is_inf_def unit_interval_def)
  have "?m = round_mag (scaled (f64_mag r) * c) 1"
    using round_mag_scale [of f64_unit 1 "scaled (f64_mag r) * c"] by (simp add: c mult.assoc)
  also have "\<dots> \<le> round_mag ((2 ^ 53 - 1) * c * 2 ^ 1021) 1"
    using mult_right_mono [OF scaled_unit_interval [OF assms(1)], of c]
    by (intro round_mag_mono) (simp_all only: mult_ac mult_1 zero_less_one)
  also have "\<dots> \<le> (l - 52 + 1021) * 2 ^ 52 + rne ((2 ^ 53 - 1) * c) (2 ^ (l - 52))"
    using l by (rule round_mag_shift)
  also have "\<dots> < b" by (rule fin)
  finally have "?m < b" .
  then show "f64_mag (f64_mul r y) < b" and "\<not> f64_sign (f64_mul r y)"
    unfolding mul using c(2) f64_of_simps [of ?m False] by auto
qed

lemma f64_to_u32_bound:
  assumes "scaled b = c * f64_unit" and "f64_mag w < b" and "b \<le> inf_mag" and "0 < c"
  shows "unat (f64_to_u32 w) < c"
proof (cases "f64_is_nan w \<or> f64_sign w")
  case False
  have "scaled (f64_mag w) < c * f64_unit"
    using scaled_less_iff [of "f64_mag w" b] assms by simp
  then have lt: "scaled (f64_mag w) div f64_unit < c" by (simp add: div_less_iff_less_mult)
  have "min (scaled (f64_mag w) div f64_unit) (2 ^ 32 - 1) < 2 ^ 32" by (simp add: min_def)
  then have "unat (f64_to_u32 w) = min (scaled (f64_mag w) div f64_unit) (2 ^ 32 - 1)"
    using False unfolding f64_to_u32_def
    by (simp only: if_False unat_of_nat) (rule mod_less, simp)
  with lt show ?thesis by simp
qed (use assms(4) in \<open>auto simp: f64_to_u32_def\<close>)

lemma mul_unit_1000:
  assumes "unit_interval r"
  shows "f64_mag (f64_mul r (f64_lit 1000 0)) < dec_mag 1000 0"
    and "\<not> f64_sign (f64_mul r (f64_lit 1000 0))"
    and "unat (f64_to_u32 (f64_mul r (f64_lit 1000 0))) < 1000"
proof -
  have s: "scaled (dec_mag 1000 0) = 1000 * f64_unit"
    using integer_mag(2) [of 1000 4292493394837504 9] by (simp add: dec_mag_1000)
  show b: "f64_mag (f64_mul r (f64_lit 1000 0)) < dec_mag 1000 0"
    and "\<not> f64_sign (f64_mul r (f64_lit 1000 0))"
    using mul_unit_bound [OF assms s, of "f64_lit 1000 0" 62] by (simp_all add: dec_mag_1000 rne_def Let_def)
  show "unat (f64_to_u32 (f64_mul r (f64_lit 1000 0))) < 1000"
    by (rule f64_to_u32_bound [OF s b dec_mag_le_inf]) simp
qed

lemma mul_unit_5000:
  assumes "unit_interval r"
  shows "unat (f64_to_u32 (f64_mul r (f64_lit 5000 0))) < 5000"
proof -
  have s: "scaled (dec_mag 5000 0) = 5000 * f64_unit"
    using integer_mag(2) [of 5000 993958511509504 12] by (simp add: dec_mag_5000)
  have b: "f64_mag (f64_mul r (f64_lit 5000 0)) < dec_mag 5000 0"
    using mul_unit_bound(1) [OF assms s, of "f64_lit 5000 0" 65] by (simp add: dec_mag_5000 rne_def Let_def)
  show ?thesis by (rule f64_to_u32_bound [OF s b dec_mag_le_inf]) simp
qed


section \<open>Display and FromStr\<close>

text \<open>
  \<^verbatim>\<open>Display\<close> prints the shortest decimal that rounds back to the value, nearest to it
  among those of that length, without an exponent. \<open>dec_point b\<close> is the \<open>k\<close> with
  \<open>10 ^ (k - 1) \<le> v < 10 ^ k\<close> for the value \<open>v > 0\<close>; the candidates with \<open>n\<close> digits are the
  two multiples of \<open>10 ^ (k - n)\<close> around \<open>v\<close>.
\<close>

function lead_zeros :: "nat \<Rightarrow> nat \<Rightarrow> nat" where
  "lead_zeros n d = (if n = 0 \<or> d \<le> n then 0 else Suc (lead_zeros (10 * n) d))"
  by pat_completeness auto
termination
  by (relation "measure (\<lambda>(n, d). d - n)") auto

declare lead_zeros.simps [simp del]

definition dec_point :: "nat \<Rightarrow> int" where
  "dec_point b =
     (if f64_unit \<le> scaled b then int (length (show_nat (scaled b div f64_unit)))
      else 1 - int (lead_zeros (scaled b) f64_unit))"

definition candidate :: "nat \<Rightarrow> int \<Rightarrow> nat option" where
  "candidate b p =
     (let n = (if 0 \<le> p then scaled b else scaled b * 10 ^ nat (- p));
          d = (if 0 \<le> p then f64_unit * 10 ^ nat p else f64_unit);
          lo = n div d; hi = lo + 1;
          lo_ok = (dec_mag lo p = b); hi_ok = (dec_mag hi p = b)
      in if lo_ok \<and> hi_ok then Some (if 2 * (n mod d) < d then lo else hi)
         else if lo_ok then Some lo else if hi_ok then Some hi else None)"

text \<open>
  Seventeen digits always suffice for binary64; the last equation, the exact expansion,
  keeps the function total without that fact.
\<close>

definition exact_decimal :: "nat \<Rightarrow> nat \<times> int" where
  "exact_decimal b = (scaled b * 5 ^ 1074, - 1074)"

fun shortest_from :: "nat \<Rightarrow> int \<Rightarrow> nat list \<Rightarrow> nat \<times> int" where
  "shortest_from b k [] = exact_decimal b"
| "shortest_from b k (n # ns) =
     (case candidate b (k - int n) of
        Some c \<Rightarrow> (c, k - int n)
      | None \<Rightarrow> shortest_from b k ns)"

fun strip_zeros :: "nat \<Rightarrow> int \<Rightarrow> nat \<times> int" where
  "strip_zeros c p = (if 0 < c \<and> c mod 10 = 0 then strip_zeros (c div 10) (p + 1) else (c, p))"

declare strip_zeros.simps [simp del]

definition shortest :: "nat \<Rightarrow> nat \<times> int" where
  "shortest b = (let (c, p) = shortest_from b (dec_point b) [1..<18] in strip_zeros c p)"

definition show_decimal :: "nat \<Rightarrow> int \<Rightarrow> string" where
  "show_decimal c p =
     (let ds = show_nat c in
      if 0 \<le> p then ds @ replicate (nat p) (CHR ''0'')
      else let k = nat (- p) in
        if k < length ds then take (length ds - k) ds @ CHR ''.'' # drop (length ds - k) ds
        else ''0.'' @ replicate (k - length ds) (CHR ''0'') @ ds)"

definition show_f64 :: "f64 \<Rightarrow> string" where
  "show_f64 w =
     (if f64_is_nan w then ''NaN''
      else (if f64_sign w then ''-'' else []) @
        (if f64_is_inf w then ''inf''
         else if f64_mag w = 0 then ''0''
         else let (c, p) = shortest (f64_mag w) in show_decimal c p))"

text \<open>
  \<^verbatim>\<open>FromStr\<close>: an optional sign, then \<open>inf\<close>, \<open>infinity\<close> or \<open>nan\<close> in any case, or digits
  with at most one point and at least one digit, then optionally an exponent.
\<close>

definition parse_exponent :: "string \<Rightarrow> int option" where
  "parse_exponent s = (case s of
     [] \<Rightarrow> Some 0
   | e # r \<Rightarrow>
       if e \<noteq> CHR ''e'' \<and> e \<noteq> CHR ''E'' then None
       else let neg = (case r of c # _ \<Rightarrow> c = CHR ''-'' | [] \<Rightarrow> False);
                ds = (case r of c # cs \<Rightarrow> if c = CHR ''-'' \<or> c = CHR ''+'' then cs else r | [] \<Rightarrow> [])
            in if ds = [] \<or> \<not> list_all is_digit ds then None
               else Some (if neg then - int (digits_val ds) else int (digits_val ds)))"

definition parse_decimal :: "string \<Rightarrow> (nat \<times> int) option" where
  "parse_decimal s =
     (let ip = takeWhile is_digit s; r = dropWhile is_digit s;
          dot = (case r of c # _ \<Rightarrow> c = CHR ''.'' | [] \<Rightarrow> False);
          fp = (if dot then takeWhile is_digit (tl r) else []);
          r' = (if dot then dropWhile is_digit (tl r) else r)
      in if ip = [] \<and> fp = [] then None
         else map_option (\<lambda>e. (digits_val (ip @ fp), e - int (length fp))) (parse_exponent r'))"

definition parse_f64 :: "string \<Rightarrow> f64 option" where
  "parse_f64 s =
     (let neg = (case s of c # _ \<Rightarrow> c = CHR ''-'' | [] \<Rightarrow> False);
          r = (case s of c # cs \<Rightarrow> if c = CHR ''-'' \<or> c = CHR ''+'' then cs else s | [] \<Rightarrow> []);
          l = map ascii_lower r
      in if l = ''inf'' \<or> l = ''infinity'' then Some (f64_of neg inf_mag)
         else if l = ''nan'' then Some (f64_of neg (inf_mag + 2 ^ 51))
         else map_option (\<lambda>(c, p). f64_of neg (dec_mag c p)) (parse_decimal r))"

lemma dec_mag_step: "dec_mag (10 * c) p = dec_mag c (p + 1)"
proof (cases "0 \<le> p")
  case True
  then have "nat (p + 1) = Suc (nat p)" by simp
  with True show ?thesis by (simp add: dec_mag_def algebra_simps)
next
  case False
  then obtain k where k: "nat (- p) = Suc k" by (metis gr0_implies_Suc neg_0_less_iff_less not_le zero_less_nat_eq)
  then have p: "p = - int (Suc k)" using False by linarith
  have "round_mag (10 * c * f64_unit) (10 ^ Suc k) = round_mag (c * f64_unit) (10 ^ k)"
    using round_mag_scale [of 10 "10 ^ k" "c * f64_unit"] by (simp add: algebra_simps)
  moreover have "dec_mag (10 * c) p = round_mag (10 * c * f64_unit) (10 ^ Suc k)"
    unfolding dec_mag_def k using False by simp
  moreover have "dec_mag c (p + 1) = round_mag (c * f64_unit) (10 ^ k)"
  proof (cases k)
    case (Suc j)
    then have "nat (- (p + 1)) = k" and "\<not> 0 \<le> p + 1" using p by simp_all
    then show ?thesis by (simp add: dec_mag_def)
  qed (simp add: dec_mag_def p)
  ultimately show ?thesis by simp
qed

lemma dec_mag_shift: "dec_mag (c * 10 ^ k) p = dec_mag c (p + int k)"
proof (induction k arbitrary: p)
  case (Suc k)
  have "dec_mag (c * 10 ^ Suc k) p = dec_mag (10 * (c * 10 ^ k)) p" by (simp add: algebra_simps)
  also have "\<dots> = dec_mag c (p + 1 + int k)" by (simp only: dec_mag_step Suc.IH)
  finally show ?case by (simp add: algebra_simps)
qed simp

lemma candidate_correct: "candidate b p = Some c \<Longrightarrow> dec_mag c p = b"
  by (auto simp: candidate_def Let_def split: if_splits)

lemma dec_mag_exact:
  assumes "b \<le> inf_mag" and "exact_decimal b = (c, p)"
  shows "dec_mag c p = b"
proof -
  define k :: nat where "k = 1074"
  have cp: "c = scaled b * 5 ^ k" "p = - int k" and k: "0 < k"
    using assms(2) unfolding exact_decimal_def k_def by (simp_all only: prod.inject of_nat_numeral zero_less_numeral)
  have u: "5 ^ k * f64_unit = 10 ^ k"
    unfolding f64_unit_def k_def [symmetric] by (simp add: power_mult_distrib [symmetric])
  have "dec_mag c p = round_mag (scaled b * (5 ^ k * f64_unit)) (10 ^ k)"
    unfolding dec_mag_def cp using k by (simp add: mult.assoc)
  also have "\<dots> = b" unfolding u using assms(1) by (intro round_mag_scaled) simp_all
  finally show ?thesis .
qed

lemma shortest_from_correct:
  "b \<le> inf_mag \<Longrightarrow> shortest_from b k ns = (c, p) \<Longrightarrow> dec_mag c p = b"
proof (induction ns)
  case Nil
  then show ?case using dec_mag_exact by simp
next
  case (Cons n ns)
  then show ?case by (auto split: option.splits dest: candidate_correct)
qed

lemma strip_zeros_correct: "strip_zeros c p = (c', p') \<Longrightarrow> dec_mag c' p' = dec_mag c p"
proof (induction c p rule: strip_zeros.induct)
  case (1 c p)
  show ?case
  proof (cases "0 < c \<and> c mod 10 = 0")
    case True
    then have "c = 10 * (c div 10)" by auto
    then have "dec_mag c p = dec_mag (c div 10) (p + 1)" using dec_mag_step by metis
    moreover have "strip_zeros (c div 10) (p + 1) = (c', p')"
      using True "1.prems" by (simp add: strip_zeros.simps [of c p])
    ultimately show ?thesis using "1.IH" True by simp
  next
    case False
    with "1.prems" show ?thesis by (simp add: strip_zeros.simps [of c p])
  qed
qed

lemma shortest_correct: "b \<le> inf_mag \<Longrightarrow> shortest b = (c, p) \<Longrightarrow> dec_mag c p = b"
  using shortest_from_correct strip_zeros_correct
  unfolding shortest_def by (metis (no_types, lifting) case_prod_conv surj_pair)

lemma all_digits_replicate: "list_all is_digit (replicate k (CHR ''0''))"
  by (simp add: list_all_iff is_digit_def byte_of_def)

lemma show_decimal_chars: "c \<in> set (show_decimal n p) \<Longrightarrow> is_digit c \<or> c = CHR ''.''"
  using show_nat_digits [of n] all_digits_replicate
  by (auto simp: show_decimal_def Let_def list_all_iff is_digit_def byte_of_def
      dest: in_set_takeD in_set_dropD split: if_splits)

lemma show_decimal_hd: "\<exists>c cs. show_decimal n p = c # cs \<and> is_digit c"
proof -
  obtain c cs where s: "show_nat n = c # cs" and c: "is_digit c" using show_nat_hd by blast
  show ?thesis
  proof (cases "0 \<le> p \<or> nat (- p) \<ge> length (show_nat n)")
    case True
    with s c show ?thesis by (auto simp: show_decimal_def Let_def is_digit_def byte_of_def)
  next
    case False
    then obtain k where "length (show_nat n) - nat (- p) = Suc k"
      by (metis Suc_diff_Suc not_le)
    with False s c show ?thesis by (auto simp: show_decimal_def Let_def)
  qed
qed

lemma parse_decimal_int:
  "list_all is_digit s \<Longrightarrow> s \<noteq> [] \<Longrightarrow> parse_decimal s = Some (digits_val s, 0)"
  by (simp add: parse_decimal_def Let_def parse_exponent_def takeWhile_all dropWhile_all list_all_iff)

lemma parse_decimal_frac:
  assumes "list_all is_digit s" and "list_all is_digit t" and "s \<noteq> []"
  shows "parse_decimal (s @ CHR ''.'' # t) = Some (digits_val (s @ t), - int (length t))"
  using assms
  by (simp add: parse_decimal_def Let_def parse_exponent_def takeWhile_append_stop
      dropWhile_append_stop takeWhile_all dropWhile_all list_all_iff)

lemma parse_show_decimal:
  "\<exists>c' p'. parse_decimal (show_decimal c p) = Some (c', p') \<and> dec_mag c' p' = dec_mag c p"
proof (cases "0 \<le> p")
  case True
  then have "show_decimal c p = show_nat c @ replicate (nat p) (CHR ''0'')"
    by (simp add: show_decimal_def)
  moreover have "digits_val (show_nat c @ replicate (nat p) (CHR ''0'')) = c * 10 ^ nat p"
    by (simp add: digits_val_append)
  ultimately show ?thesis
    using True dec_mag_shift [of c "nat p" 0] all_digits_replicate show_nat_digits
    by (simp add: parse_decimal_int)
next
  case False
  define k ds where "k = nat (- p)" and "ds = show_nat c"
  have ds: "list_all is_digit ds" and p: "p = - int k" using False by (simp_all add: ds_def show_nat_digits k_def)
  show ?thesis
  proof (cases "k < length ds")
    case True
    have "list_all is_digit (take (length ds - k) ds)" and "list_all is_digit (drop (length ds - k) ds)"
      using ds by (auto simp: list_all_iff dest: in_set_takeD in_set_dropD)
    moreover have "take (length ds - k) ds \<noteq> []" using True by auto
    moreover have "show_decimal c p = take (length ds - k) ds @ CHR ''.'' # drop (length ds - k) ds"
      using False True by (simp add: show_decimal_def Let_def k_def ds_def)
    ultimately show ?thesis using True by (simp add: parse_decimal_frac p) (simp add: ds_def)
  next
    case kl: False
    have z: "list_all is_digit ''0''" by (simp add: is_digit_def byte_of_def)
    have "show_decimal c p = ''0'' @ CHR ''.'' # (replicate (k - length ds) (CHR ''0'') @ ds)"
      using False kl by (simp add: show_decimal_def Let_def k_def ds_def)
    moreover have "digits_val (''0'' @ replicate (k - length ds) (CHR ''0'') @ ds) = c"
      using digits_val_replicate_zero [of 1] by (simp add: digits_val_append ds_def digits_val_Cons digit_val_def byte_of_def)
    ultimately show ?thesis
      using parse_decimal_frac [OF z, of "replicate (k - length ds) (CHR ''0'') @ ds"] ds kl
        all_digits_replicate by (simp add: p)
  qed
qed

lemma digit_not_special:
  assumes "is_digit c"
  shows "c \<noteq> CHR ''-''" and "c \<noteq> CHR ''+''" and "ascii_lower c = c"
    and "c \<noteq> CHR ''i''" and "c \<noteq> CHR ''n''"
  using assms by (auto simp: is_digit_def byte_of_def ascii_lower_def)

lemma parse_f64_number:
  assumes "is_digit c"
  shows "parse_f64 ((if s then ''-'' else []) @ c # cs) =
         map_option (\<lambda>(m, p). f64_of s (dec_mag m p)) (parse_decimal (c # cs))"
  using digit_not_special [OF assms] by (cases s) (simp_all add: parse_f64_def Let_def)

lemma parse_show_f64:
  assumes "\<not> f64_is_nan w"
  shows "parse_f64 (show_f64 w) = Some w"
proof -
  let ?s = "f64_sign w" and ?b = "f64_mag w"
  have le: "?b \<le> inf_mag" using assms by (simp add: f64_is_nan_def)
  consider (inf) "f64_is_inf w" | (zero) "?b = 0" | (num) "\<not> f64_is_inf w" "?b \<noteq> 0" by blast
  then show ?thesis
  proof cases
    case inf
    then have "f64_of ?s inf_mag = w" using f64_of_parts [of w] by (simp add: f64_is_inf_def)
    with inf assms show ?thesis
      by (cases ?s) (simp_all add: show_f64_def parse_f64_def Let_def ascii_lower_def byte_of_def)
  next
    case zero
    have d: "is_digit CHR ''0''" by (simp add: is_digit_def byte_of_def)
    have "parse_decimal ''0'' = Some (0, 0)"
      using parse_decimal_int [of "''0''"] d by (simp add: digits_val_def digit_val_def byte_of_def)
    moreover have "f64_of ?s 0 = w" using f64_of_parts [of w] zero by simp
    ultimately show ?thesis
      using zero assms parse_f64_number [OF d, of ?s "[]"]
      by (simp add: show_f64_def f64_is_inf_def)
  next
    case num
    obtain c p where cp: "shortest ?b = (c, p)" by fastforce
    then have "dec_mag c p = ?b" by (rule shortest_correct [OF le])
    then obtain m q where mq: "parse_decimal (show_decimal c p) = Some (m, q)" "dec_mag m q = ?b"
      using parse_show_decimal [of c p] by auto
    obtain d ds where d: "show_decimal c p = d # ds" "is_digit d" using show_decimal_hd by blast
    have "show_f64 w = (if ?s then ''-'' else []) @ d # ds"
      using num assms cp d by (simp add: show_f64_def)
    then show ?thesis using parse_f64_number [OF d(2), of ?s ds] mq d by (simp add: f64_of_parts)
  qed
qed

lemma show_f64_no_bar: "CHR ''|'' \<notin> set (show_f64 w)"
  using show_decimal_chars [of "CHR ''|''"]
  by (auto simp: show_f64_def split: prod.splits)

interpretation f64_field: text_field show_f64 parse_f64 "\<lambda>w. \<not> f64_is_nan w"
  by unfold_locales (simp_all add: parse_show_f64 show_f64_no_bar)

end
