(* ===== verification/Errors.thy ===== *)
theory Errors
  imports Rust_F64
begin

text \<open>
  \<^verbatim>\<open>src/errors.rs\<close>: the error enumerations, their \<^verbatim>\<open>Display\<close> texts (the
  \<^verbatim>\<open>#[error(...)]\<close> formats) and the \<^verbatim>\<open>From\<close> conversions between them. Variants that
  share a name across enumerations carry the enumeration's name as a prefix. The payload
  type of \<^verbatim>\<open>DistributionError\<close> belongs to the \<^verbatim>\<open>rand_distr\<close> crate and is left
  uninterpreted.
\<close>

text \<open>\<^verbatim>\<open>std::io::Error\<close>: its kind and its \<^verbatim>\<open>Display\<close> text.\<close>

datatype io_error_kind = WouldBlock | TimedOut | Interrupted | InvalidData | UnexpectedEof | OtherKind

record io_error =
  io_kind :: io_error_kind
  io_message :: string

text \<open>\<^verbatim>\<open>SystemTimeError\<close>: by how many milliseconds the clock lies before the reference time.\<close>

datatype system_time_error = SystemTimeError nat

text \<open>What \<^verbatim>\<open>SystemTime::now().duration_since(UNIX_EPOCH)\<close> returns, in whole milliseconds.\<close>

type_synonym clock_reading = "system_time_error + nat"

text \<open>The error type of the \<^verbatim>\<open>rand_distr\<close> crate, not inspected by the program.\<close>

typedecl normal_error

datatype quote_generator_error =
    InvalidVolatility f64
  | TimeError system_time_error
  | DistributionError normal_error

definition generator_error_from :: "normal_error \<Rightarrow> quote_generator_error" where
  "generator_error_from err = DistributionError err"

datatype quote_server_error =
    InvalidConfig string
  | ServerInitializationError string
  | UpdateQuoteError string
  | ServerClientError string

fun show_server_error :: "quote_server_error \<Rightarrow> string" where
  "show_server_error (InvalidConfig m) = ''Invalid Quote Server config: '' @ m"
| "show_server_error (ServerInitializationError m) = ''Failed to initialize Quote Server: '' @ m"
| "show_server_error (UpdateQuoteError m) = ''Failed to update quotes: '' @ m"
| "show_server_error (ServerClientError m) = ''Failed to add/remove client: '' @ m"

datatype client_error =
    CallbackFailed string
  | ClientInitializationError string

fun show_client_error :: "client_error \<Rightarrow> string" where
  "show_client_error (CallbackFailed m) = ''Callback returned an error: '' @ m"
| "show_client_error (ClientInitializationError m) = ''Failed to initialize client loop: '' @ m"

definition server_error_from :: "client_error \<Rightarrow> quote_server_error" where
  "server_error_from err = ServerClientError (show_client_error err)"

datatype tcp_server_error =
    BindError string
  | AcceptError string
  | ClientIoError string
  | InvalidCommand string
  | TcpQuoteServerError quote_server_error

fun show_tcp_error :: "tcp_server_error \<Rightarrow> string" where
  "show_tcp_error (BindError m) = ''Failed to bind TCP listener: '' @ m"
| "show_tcp_error (AcceptError m) = ''Failed to accept TCP connection: '' @ m"
| "show_tcp_error (ClientIoError m) = ''Client IO error: '' @ m"
| "show_tcp_error (InvalidCommand m) = ''Invalid command received: '' @ m"
| "show_tcp_error (TcpQuoteServerError e) = ''Quote server error: '' @ show_server_error e"

datatype cli_error = GeneralError string

fun show_cli_error :: "cli_error \<Rightarrow> string" where
  "show_cli_error (GeneralError m) = ''Cli failed with error: '' @ m"

definition cli_error_from :: "quote_server_error \<Rightarrow> cli_error" where
  "cli_error_from err = GeneralError (show_server_error err)"

end
