(* ===== verification/Stock_Quote.thy ===== *)
theory Stock_Quote
  imports Errors
begin

text \<open>
  \<^verbatim>\<open>src/stock_quote.rs\<close>: the quote, its construction, its text form
  \<open>ticker|price|volume|timestamp\<close> and the parser of that form. The random draw and the
  clock reading of \<^verbatim>\<open>StockQuote::new\<close> are arguments.
\<close>

record stock_quote =
  ticker :: string
  price :: f64
  volume :: u32
  timestamp :: u64

definition new_quote :: "f64 \<Rightarrow> clock_reading \<Rightarrow> string \<Rightarrow> stock_quote" where
  "new_quote r now t =
     \<lparr>ticker = t, price = f64_mul r (f64_lit 1000 0), volume = 0,
      timestamp = of_nat (case now of Inl _ \<Rightarrow> 0 | Inr ms \<Rightarrow> ms)\<rparr>"

definition bar :: char where
  "bar = CHR ''|''"

definition from_string :: "string \<Rightarrow> stock_quote option" where
  "from_string s =
     (let parts = split_on (\<lambda>c. c = bar) s in
      if length parts = 4 then
        (case parse_f64 (parts ! 1) of None \<Rightarrow> None | Some p \<Rightarrow>
         case parse_u32 (parts ! 2) of None \<Rightarrow> None | Some v \<Rightarrow>
         case parse_u64 (parts ! 3) of None \<Rightarrow> None | Some t \<Rightarrow>
           Some \<lparr>ticker = parts ! 0, price = p, volume = v, timestamp = t\<rparr>)
      else None)"

text \<open>\<^verbatim>\<open>to_bytes\<close> extends a byte vector step by step; \<^verbatim>\<open>Display\<close> formats the same fields.\<close>

definition to_bytes :: "stock_quote \<Rightarrow> string" where
  "to_bytes q =
     (let bytes = []; bytes = bytes @ ticker q; bytes = bytes @ [bar];
          bytes = bytes @ show_f64 (price q); bytes = bytes @ [bar];
          bytes = bytes @ show_u32 (volume q); bytes = bytes @ [bar];
          bytes = bytes @ show_u64 (timestamp q)
      in bytes)"

definition show_quote :: "stock_quote \<Rightarrow> string" where
  "show_quote q =
     ticker q @ ''|'' @ show_f64 (price q) @ ''|'' @ show_u32 (volume q) @ ''|'' @
     show_u64 (timestamp q)"

lemma split_quote_fields:
  assumes "CHR ''|'' \<notin> set t"
  shows "split_on (\<lambda>c. c = bar) (t @ ''|'' @ show_f64 p @ ''|'' @ show_u32 v @ ''|'' @ show_u64 ts) =
         [t, show_f64 p, show_u32 v, show_u64 ts]"
proof -
  have "\<forall>c \<in> set t. c \<noteq> CHR ''|''" using assms by auto
  then show ?thesis by (simp add: bar_def split_on_append_sep)
qed

lemma split_quote:
  "CHR ''|'' \<notin> set (ticker q) \<Longrightarrow>
   split_on (\<lambda>c. c = bar) (show_quote q) =
   [ticker q, show_f64 (price q), show_u32 (volume q), show_u64 (timestamp q)]"
  unfolding show_quote_def by (rule split_quote_fields)

lemma split_quote_bar:
  assumes "CHR ''|'' \<in> set (ticker q)"
  shows "4 < length (split_on (\<lambda>c. c = bar) (show_quote q))"
proof -
  have "filter (\<lambda>c. c = CHR ''|'') (ticker q) \<noteq> []" using assms by (simp add: filter_empty_conv)
  then have "0 < length (filter (\<lambda>c. c = CHR ''|'') (ticker q))" by blast
  then show ?thesis by (simp add: length_split_on show_quote_def bar_def del: length_greater_0_conv)
qed

text \<open>The byte form sent by \<^verbatim>\<open>to_bytes\<close> is the \<^verbatim>\<open>Display\<close> text of the quote.\<close>

lemma to_bytes_is_display: "to_bytes q = show_quote q"
  by (simp add: to_bytes_def show_quote_def bar_def)

text \<open>
  C27: \<^verbatim>\<open>from_string\<close> inverts \<^verbatim>\<open>Display\<close> on every quote whose price is a number, exactly
  when its ticker contains no field separator; in particular the printed price is read
  back to the same 64 bits.
\<close>

theorem from_string_display:
  assumes "\<not> f64_is_nan (price q)"
  shows "from_string (show_quote q) = Some q \<longleftrightarrow> CHR ''|'' \<notin> set (ticker q)"
proof
  assume "from_string (show_quote q) = Some q"
  then have "length (split_on (\<lambda>c. c = bar) (show_quote q)) = 4"
    by (auto simp: from_string_def Let_def split: if_splits)
  then show "CHR ''|'' \<notin> set (ticker q)" using split_quote_bar [of q] by auto
next
  assume "CHR ''|'' \<notin> set (ticker q)"
  then show "from_string (show_quote q) = Some q"
    using assms by (simp add: from_string_def split_quote parse_show_f64
        u32_field.parse_print u64_field.parse_print)
qed

theorem from_string_display_witness:
  "from_string (show_quote \<lparr>ticker = ''AAPL'', price = f64_lit 12345 (- 2), volume = 100,
     timestamp = 1700000000000\<rparr>) =
   Some \<lparr>ticker = ''AAPL'', price = f64_lit 12345 (- 2), volume = 100, timestamp = 1700000000000\<rparr>"
  using from_string_display [of "\<lparr>ticker = ''AAPL'', price = f64_lit 12345 (- 2), volume = 100,
     timestamp = 1700000000000\<rparr>"] dec_mag_le_inf [of 12345 "- 2"]
  by (simp add: f64_is_nan_def)

text \<open>
  What \<^verbatim>\<open>from_string\<close> accepts: exactly four fields between three bars, the last three
  of which parse as the field types; the ticker is taken as it is.
\<close>

lemma from_string_accepts:
  "from_string s = Some q \<longleftrightarrow>
   (\<exists>p v t. split_on (\<lambda>c. c = bar) s = [ticker q, p, v, t] \<and> parse_f64 p = Some (price q) \<and>
      parse_u32 v = Some (volume q) \<and> parse_u64 t = Some (timestamp q))"
proof
  assume a: "from_string s = Some q"
  then have "length (split_on (\<lambda>c. c = bar) s) = 4"
    by (auto simp: from_string_def Let_def split: if_splits)
  then obtain f p v t where parts: "split_on (\<lambda>c. c = bar) s = [f, p, v, t]"
    by (auto simp: length_Suc_conv eval_nat_numeral)
  with a show "\<exists>p v t. split_on (\<lambda>c. c = bar) s = [ticker q, p, v, t] \<and>
      parse_f64 p = Some (price q) \<and> parse_u32 v = Some (volume q) \<and>
      parse_u64 t = Some (timestamp q)"
    by (auto simp: from_string_def Let_def split: option.splits)
next
  assume "\<exists>p v t. split_on (\<lambda>c. c = bar) s = [ticker q, p, v, t] \<and>
      parse_f64 p = Some (price q) \<and> parse_u32 v = Some (volume q) \<and>
      parse_u64 t = Some (timestamp q)"
  then show "from_string s = Some q"
    by (auto simp: from_string_def)
qed

text \<open>
  A new quote carries its ticker and volume 0, and its price lies in \<open>[0, 1000)\<close>
  whatever value of \<open>[0, 1)\<close> the random draw takes: the rounded product never reaches
  1000.
\<close>

lemma new_quote_price:
  assumes "unit_interval r"
  shows "ticker (new_quote r now t) = t \<and> volume (new_quote r now t) = 0 \<and>
         f64_le (f64_lit 0 0) (price (new_quote r now t)) \<and>
         f64_lt (price (new_quote r now t)) (f64_lit 1000 0)"
proof -
  have m: "f64_mag (f64_mul r (f64_lit 1000 0)) < dec_mag 1000 0"
    and s: "\<not> f64_sign (f64_mul r (f64_lit 1000 0))"
    using mul_unit_1000 [OF assms] by blast+
  then have "f64_mag (f64_mul r (f64_lit 1000 0)) \<le> inf_mag"
    using dec_mag_le_inf [of 1000 0] by linarith
  with m s show ?thesis
    using dec_mag_le_inf [of 1000 0]
    by (simp add: new_quote_def f64_lt_def f64_le_def f64_key_def f64_is_nan_def)
qed

lemma new_quote_price_witness:
  "f64_lt (price (new_quote (f64_of False (1023 * 2 ^ 52 - 1)) (Inr 0) ''AAPL'')) (f64_lit 1000 0)"
  using new_quote_price [of "f64_of False (1023 * 2 ^ 52 - 1)" "Inr 0" "''AAPL''"]
  by (simp add: unit_interval_def)

end
