(* ===== verification/Defs.thy ===== *)
theory Defs
  imports Rust_F64
begin

text \<open>
  \<^verbatim>\<open>src/defs.rs\<close>: the constants. Durations are natural numbers in the unit their names
  say; the volatility is the binary64 value of its literal.
\<close>

definition VOLATILITY :: f64 where
  "VOLATILITY = f64_lit 82 (- 6)"

definition SERVER_TICK_PERIOD_MSEC :: nat where
  "SERVER_TICK_PERIOD_MSEC = 200"

definition QUOTE_UPDATE_RETRY_PERIOD_MSEC :: nat where
  "QUOTE_UPDATE_RETRY_PERIOD_MSEC = 10"

definition WRITE_TIMEOUT_MS :: nat where
  "WRITE_TIMEOUT_MS = 1000"

definition CLIENT_KEEP_ALIVE_SEC :: nat where
  "CLIENT_KEEP_ALIVE_SEC = 5"

definition TCP_CONNECTION_TICK_PERIOD_MSEC :: nat where
  "TCP_CONNECTION_TICK_PERIOD_MSEC = 200"

end
