(* ===== verification/Quote_Generator.thy ===== *)
theory Quote_Generator
  imports Stock_Quote Defs
begin

text \<open>
  \<^verbatim>\<open>src/quote_generator.rs\<close>. The log-normal distribution, the random draws and the clock
  are outside the repository or nondeterministic: the constructor of the distribution is
  the parameter \<open>ln_new\<close>, and one record \<open>draw\<close> holds what the update of one quote reads
  from them. The parallel iterator visits the quotes in an unspecified order and, after
  an error, may leave some unvisited: the list \<open>ks\<close> of visited keys is an argument, and
  \<open>schedule_ok\<close> says which lists are possible. The pass takes any iterator over quotes: the
  keys are tickers for the map of the server, and indices for a vector.
\<close>

section \<open>The generator\<close>

record quote_generator =
  volatility :: f64

definition generator_new :: "f64 \<Rightarrow> quote_generator_error + quote_generator" where
  "generator_new v =
     (if f64_le v (f64_lit 0 0) \<or> f64_lt (f64_lit 1 0) v then Inl (InvalidVolatility v)
      else Inr \<lparr>volatility = v\<rparr>)"

record draw =
  multiplier :: f64
  uniform :: f64
  now :: clock_reading

type_synonym quotes = "string \<rightharpoonup> stock_quote"

definition update_single_quote ::
    "draw \<Rightarrow> stock_quote \<Rightarrow> (quote_generator_error + unit) \<times> stock_quote" where
  "update_single_quote d q =
     (let q = q\<lparr>price := f64_mul (price q) (multiplier d)\<rparr>;
          q = q\<lparr>volume :=
            (if ticker q = ''AAPL'' \<or> ticker q = ''MSFT'' \<or> ticker q = ''TSLA''
             then 1000 + f64_to_u32 (f64_mul (uniform d) (f64_lit 5000 0))
             else 100 + f64_to_u32 (f64_mul (uniform d) (f64_lit 1000 0)))\<rparr>
      in case now d of
           Inl e \<Rightarrow> (Inl (TimeError e), q)
         | Inr ms \<Rightarrow> (Inr (), q\<lparr>timestamp := of_nat ms\<rparr>))"

text \<open>
  \<^verbatim>\<open>par_bridge().try_for_each\<close> over the visited quotes: all of them are updated, and one
  of their errors is the result if there is any.
\<close>

fun update_items ::
    "('k \<Rightarrow> draw) \<Rightarrow> 'k list \<Rightarrow> ('k \<rightharpoonup> stock_quote)
     \<Rightarrow> (quote_generator_error + unit) \<times> ('k \<rightharpoonup> stock_quote)" where
  "update_items d [] m = (Inr (), m)"
| "update_items d (k # ks) m =
     (case m k of
        None \<Rightarrow> update_items d ks m
      | Some q \<Rightarrow>
          (let (r, q') = update_single_quote (d k) q;
               (r', m') = update_items d ks (m(k \<mapsto> q'))
           in (case r of Inl e \<Rightarrow> Inl e | Inr _ \<Rightarrow> r', m')))"

definition update_quotes ::
    "(f64 \<Rightarrow> f64 \<Rightarrow> normal_error + 'd) \<Rightarrow> ('d \<Rightarrow> 'k \<Rightarrow> draw) \<Rightarrow> 'k list \<Rightarrow> quote_generator
     \<Rightarrow> ('k \<rightharpoonup> stock_quote) \<Rightarrow> (quote_generator_error + unit) \<times> ('k \<rightharpoonup> stock_quote)" where
  "update_quotes ln_new draws ks g m =
     (case ln_new (f64_lit 0 0) (volatility g) of
        Inl e \<Rightarrow> (Inl (generator_error_from e), m)
      | Inr ln \<Rightarrow> update_items (draws ln) ks m)"

definition schedule_ok :: "('k \<Rightarrow> draw) \<Rightarrow> 'k list \<Rightarrow> ('k \<rightharpoonup> stock_quote) \<Rightarrow> bool" where
  "schedule_ok d ks m \<longleftrightarrow> distinct ks \<and> set ks \<subseteq> dom m \<and>
     (dom m \<subseteq> set ks \<or> (\<exists>k \<in> set ks. \<not> is_ok (now (d k))))"


section \<open>Updating one quote\<close>

definition quotes_wf :: "quotes \<Rightarrow> bool" where
  "quotes_wf m \<longleftrightarrow> (\<forall>k q. m k = Some q \<longrightarrow> ticker q = k)"

lemma update_single_ticker [frame_simps]: "ticker (snd (update_single_quote d q)) = ticker q"
  by (simp add: update_single_quote_def Let_def split: sum.splits)

lemma update_single_result:
  "fst (update_single_quote d q) = (case now d of Inl e \<Rightarrow> Inl (TimeError e) | Inr _ \<Rightarrow> Inr ())"
  by (simp add: update_single_quote_def Let_def split: sum.splits)

lemma update_single_volume:
  "volume (snd (update_single_quote d q)) =
     (if ticker q = ''AAPL'' \<or> ticker q = ''MSFT'' \<or> ticker q = ''TSLA''
      then 1000 + f64_to_u32 (f64_mul (uniform d) (f64_lit 5000 0))
      else 100 + f64_to_u32 (f64_mul (uniform d) (f64_lit 1000 0)))"
  by (simp add: update_single_quote_def Let_def split: sum.splits)

lemma update_single_price:
  "price (snd (update_single_quote d q)) = f64_mul (price q) (multiplier d)"
  by (simp add: update_single_quote_def Let_def split: sum.splits)

lemma unat_plus_small: "unat (x :: u32) < n \<Longrightarrow> unat c + n \<le> 2 ^ 32 \<Longrightarrow> unat (c + x) = unat c + unat x"
  by (subst unat_add_lem [THEN iffD1]) auto


section \<open>Updating the visited quotes\<close>

lemma update_items_Cons:
  assumes "m k = Some q"
  shows "snd (update_items d (k # ks) m) = snd (update_items d ks (m(k \<mapsto> snd (update_single_quote (d k) q))))"
    and "fst (update_items d (k # ks) m) =
      (case fst (update_single_quote (d k) q) of Inl e \<Rightarrow> Inl e
       | Inr _ \<Rightarrow> fst (update_items d ks (m(k \<mapsto> snd (update_single_quote (d k) q)))))"
  using assms by (simp_all add: case_prod_beta Let_def)

lemma update_items_other: "k \<notin> set ks \<Longrightarrow> snd (update_items d ks m) k = m k"
proof (induction ks arbitrary: m)
  case (Cons x ks)
  then show ?case by (cases "m x") (simp_all add: update_items_Cons del: update_items.simps(2), simp)
qed simp

lemma update_items_visited:
  "distinct ks \<Longrightarrow> k \<in> set ks \<Longrightarrow>
   snd (update_items d ks m) k = map_option (\<lambda>q. snd (update_single_quote (d k) q)) (m k)"
proof (induction ks arbitrary: m)
  case (Cons x ks)
  show ?case
  proof (cases "k = x")
    case True
    then have "k \<notin> set ks" using Cons.prems(1) by simp
    note other = update_items_other [OF this]
    show ?thesis
    proof (cases "m x")
      case None
      with True other [of d m] show ?thesis by simp
    next
      case (Some q)
      with True other [of d "m(x \<mapsto> snd (update_single_quote (d x) q))"] show ?thesis
        by (simp add: update_items_Cons del: update_items.simps(2))
    qed
  next
    case False
    then have "k \<in> set ks" and "distinct ks" using Cons.prems by simp_all
    with Cons.IH False show ?thesis
      by (cases "m x") (simp_all add: update_items_Cons del: update_items.simps(2), simp)
  qed
qed simp

lemma update_items_eq:
  "distinct ks \<Longrightarrow> snd (update_items d ks m) =
   (\<lambda>k. if k \<in> set ks then map_option (\<lambda>q. snd (update_single_quote (d k) q)) (m k) else m k)"
  using update_items_visited update_items_other by fastforce

lemma update_items_ok:
  "distinct ks \<Longrightarrow> set ks \<subseteq> dom m \<Longrightarrow>
   fst (update_items d ks m) = Inr () \<longleftrightarrow> (\<forall>k \<in> set ks. is_ok (now (d k)))"
proof (induction ks arbitrary: m)
  case (Cons x ks)
  then obtain q where q: "m x = Some q" by auto
  have IH: "fst (update_items d ks (m(x \<mapsto> snd (update_single_quote (d x) q)))) = Inr () \<longleftrightarrow>
      (\<forall>k \<in> set ks. is_ok (now (d k)))"
    by (rule Cons.IH) (use Cons.prems in auto)
  show ?case
    using IH update_single_result [of "d x" q]
    by (cases "now (d x)") (simp_all add: update_items_Cons [of m x q, OF q] del: update_items.simps(2))
qed simp

lemma dom_update_items: "distinct ks \<Longrightarrow> dom (snd (update_items d ks m)) = dom m"
  by (simp add: update_items_eq dom_def)

lemma update_items_wf: "distinct ks \<Longrightarrow> quotes_wf m \<Longrightarrow> quotes_wf (snd (update_items d ks m))"
  by (auto simp: update_items_eq quotes_wf_def update_single_ticker split: if_splits)

lemma dom_update_quotes:
  "distinct ks \<Longrightarrow> dom (snd (update_quotes ln_new draws ks g m)) = dom m"
  by (auto simp: update_quotes_def dom_update_items split: sum.splits)

lemma update_quotes_wf:
  "distinct ks \<Longrightarrow> quotes_wf m \<Longrightarrow> quotes_wf (snd (update_quotes ln_new draws ks g m))"
  by (auto simp: update_quotes_def update_items_wf split: sum.splits)

text \<open>The decimal fractions of \<open>(0, 1]\<close> the constructor is called with.\<close>

lemma generator_new_fraction:
  assumes "0 < c" and "c \<le> 10 ^ k" and "0 < k" and "k \<le> 200"
  shows "generator_new (f64_lit c (- int k)) = Inr \<lparr>volatility = f64_lit c (- int k)\<rparr>"
proof -
  have e: "dec_mag c (- int k) = round_mag (c * f64_unit) (10 ^ k)" using assms(3) by (simp add: dec_mag_def)
  have "c * f64_unit * 1 \<le> 10 ^ k * f64_unit" using assms(2) by simp
  then have "round_mag (c * f64_unit) (10 ^ k) \<le> round_mag (1 * f64_unit) 1"
    by (intro round_mag_mono) (simp_all add: mult.commute)
  then have "dec_mag c (- int k) \<le> dec_mag 1 0" unfolding e by (simp add: dec_mag_def)
  moreover have "1 \<le> dec_mag c (- int k)"
  proof -
    have "(10::nat) ^ k \<le> (2 ^ 4) ^ k" by (rule power_mono) simp_all
    also have "\<dots> \<le> f64_unit"
      unfolding f64_unit_def power_mult [symmetric] using assms(4) by (intro power_increasing) simp_all
    also have "\<dots> \<le> c * f64_unit" using assms(1) by simp
    finally have "round_mag (scaled 1 * 10 ^ k) (10 ^ k) \<le> dec_mag c (- int k)"
      unfolding e by (intro round_mag_mono) (simp_all add: scaled_def)
    then show ?thesis using round_mag_scaled [of 1 "10 ^ k"] by simp
  qed
  ultimately show ?thesis
    unfolding generator_new_def by (auto simp: f64_le_def f64_lt_def f64_key_def)
qed

section \<open>Properties\<close>

text \<open>
  The constructor accepts exactly the volatilities of the interval \<open>(0, 1]\<close>, and NaN,
  and reports the volatility it rejects.
\<close>

lemma generator_new_accepts:
  "generator_new v =
     (if f64_is_nan v \<or> f64_lt (f64_lit 0 0) v \<and> f64_le v (f64_lit 1 0)
      then Inr \<lparr>volatility = v\<rparr> else Inl (InvalidVolatility v))"
proof -
  have nn: "\<not> f64_is_nan (f64_lit 0 0)" "\<not> f64_is_nan (f64_lit 1 0)"
    using dec_mag_le_inf [of 1 0] by (simp_all add: f64_is_nan_def)
  then show ?thesis by (auto simp: generator_new_def f64_le_def f64_lt_def)
qed

lemma volume_range_aux:
  assumes "unit_interval (uniform d)"
  shows "(if ticker q \<in> {''AAPL'', ''MSFT'', ''TSLA''}
          then 1000 \<le> unat (volume (snd (update_single_quote d q))) \<and>
               unat (volume (snd (update_single_quote d q))) < 6000
          else 100 \<le> unat (volume (snd (update_single_quote d q))) \<and>
               unat (volume (snd (update_single_quote d q))) < 1100)"
  using mul_unit_5000 [OF assms] mul_unit_1000(3) [OF assms]
    unat_plus_small [OF mul_unit_5000 [OF assms], of 1000]
    unat_plus_small [OF mul_unit_1000(3) [OF assms], of 100]
  by (simp add: update_single_volume)

text \<open>
  C26: after an update the volume lies in \<open>[1000, 6000)\<close> for the three large tickers and in
  \<open>[100, 1100)\<close> for the others, for every value of \<open>[0, 1)\<close> drawn: the addition does not
  overflow and the rounded product does not reach its upper end.
\<close>

theorem volume_range:
  assumes "unit_interval (uniform d)"
  shows "(if ticker q \<in> {''AAPL'', ''MSFT'', ''TSLA''}
          then 1000 \<le> unat (volume (snd (update_single_quote d q))) \<and>
               unat (volume (snd (update_single_quote d q))) < 6000
          else 100 \<le> unat (volume (snd (update_single_quote d q))) \<and>
               unat (volume (snd (update_single_quote d q))) < 1100)"
  using assms by (rule volume_range_aux)

theorem volume_range_witness:
  "unat (volume (snd (update_single_quote
     \<lparr>multiplier = f64_lit 1 0, uniform = f64_of False (1023 * 2 ^ 52 - 1), now = Inr 5\<rparr>
     \<lparr>ticker = ''AAPL'', price = f64_lit 150 0, volume = 0, timestamp = 0\<rparr>))) < 6000"
  using volume_range [of "\<lparr>multiplier = f64_lit 1 0, uniform = f64_of False (1023 * 2 ^ 52 - 1), now = Inr 5\<rparr>"
      "\<lparr>ticker = ''AAPL'', price = f64_lit 150 0, volume = 0, timestamp = 0\<rparr>"]
  by (simp add: unit_interval_def)

text \<open>
  C25: an update pass that succeeds has updated every quote exactly once, whatever order
  the parallel iterator chose: each price is multiplied by its draw, each timestamp is
  the clock reading of its own update, and no key appears or disappears. It succeeds
  exactly when the distribution could be built and no clock reading failed.
\<close>

theorem update_quotes_complete:
  assumes ln: "ln_new (f64_lit 0 0) (volatility g) = Inr ln" and sched: "schedule_ok (draws ln) ks m"
  shows "(fst (update_quotes ln_new draws ks g m) = Inr () \<longleftrightarrow>
            (\<forall>k \<in> dom m. is_ok (now (draws ln k)))) \<and>
         (fst (update_quotes ln_new draws ks g m) = Inr () \<longrightarrow>
            snd (update_quotes ln_new draws ks g m) =
              (\<lambda>k. map_option (\<lambda>q. snd (update_single_quote (draws ln k) q)) (m k)))"
proof -
  have ks: "distinct ks" "set ks \<subseteq> dom m" using sched by (simp_all add: schedule_ok_def)
  have u: "update_quotes ln_new draws ks g m = update_items (draws ln) ks m"
    by (simp add: update_quotes_def ln)
  have ok: "fst (update_items (draws ln) ks m) = Inr () \<longleftrightarrow> (\<forall>k \<in> set ks. is_ok (now (draws ln k)))"
    using ks by (rule update_items_ok)
  have all: "(\<forall>k \<in> set ks. is_ok (now (draws ln k))) \<longleftrightarrow> (\<forall>k \<in> dom m. is_ok (now (draws ln k)))"
    using sched unfolding schedule_ok_def by blast
  have "snd (update_items (draws ln) ks m) =
      (\<lambda>k. map_option (\<lambda>q. snd (update_single_quote (draws ln k) q)) (m k))"
    if "\<forall>k \<in> set ks. is_ok (now (draws ln k))"
  proof -
    from that sched have "set ks = dom m" unfolding schedule_ok_def by blast
    then show ?thesis using ks(1) by (auto simp: update_items_eq fun_eq_iff domIff split: if_splits)
  qed
  with ok all u show ?thesis by simp
qed

definition example_draw :: "clock_reading \<Rightarrow> draw" where
  "example_draw t = \<lparr>multiplier = f64_lit 1 0, uniform = f64_lit 0 0, now = t\<rparr>"

definition example_quote :: "string \<Rightarrow> stock_quote" where
  "example_quote t = \<lparr>ticker = t, price = f64_lit 150 0, volume = 0, timestamp = 0\<rparr>"

theorem update_quotes_complete_witness:
  "fst (update_quotes (\<lambda>_ _. Inr () :: normal_error + unit) (\<lambda>_ _. example_draw (Inr 7)) [''B'', ''A'']
     \<lparr>volatility = VOLATILITY\<rparr> [''A'' \<mapsto> example_quote ''A'', ''B'' \<mapsto> example_quote ''B'']) = Inr ()"
  using update_quotes_complete [of "\<lambda>_ _. Inr () :: normal_error + unit" "\<lparr>volatility = VOLATILITY\<rparr>" "()"
      "\<lambda>_ _. example_draw (Inr 7)" "[''B'', ''A'']"
      "[''A'' \<mapsto> example_quote ''A'', ''B'' \<mapsto> example_quote ''B'']"]
  by (simp add: schedule_ok_def example_draw_def insert_commute)



end
