(* ===== verification/Client.thy ===== *)
theory Client
  imports Quote_Generator
begin

text \<open>
  \<^verbatim>\<open>src/client.rs\<close>: the handle of a subscribed client and the thread that serves it. The
  handle and the thread share a channel (\<^verbatim>\<open>std::sync::mpsc\<close>). Threads live in a store
  \<open>rt_threads\<close> of the runtime and are named by numbers that are never reused; a
  \<^verbatim>\<open>Sender\<close> and a \<^verbatim>\<open>JoinHandle\<close> are such numbers. The callback is a function from the
  message and the state \<open>'w\<close> of the outside world to its result and the new state.
  Joining a thread blocks: an operation that reaches a join returns \<open>Join t r\<close>, that is,
  it waits for thread \<open>t\<close> and then returns \<open>r\<close>.
\<close>

datatype client_command = Update | Shutdown

section \<open>Channels\<close>

record 'a channel =
  ch_queue :: "'a list"
  ch_sender :: bool
  ch_receiver :: bool

definition chan_new :: "'a channel" where
  "chan_new = \<lparr>ch_queue = [], ch_sender = True, ch_receiver = True\<rparr>"

definition chan_send :: "'a \<Rightarrow> 'a channel \<Rightarrow> 'a channel option" where
  "chan_send x ch = (if ch_receiver ch then Some (ch\<lparr>ch_queue := ch_queue ch @ [x]\<rparr>) else None)"

datatype 'a received = Received 'a | Disconnected | Blocked

definition chan_recv :: "'a channel \<Rightarrow> 'a received \<times> 'a channel" where
  "chan_recv ch = (case ch_queue ch of
     x # xs \<Rightarrow> (Received x, ch\<lparr>ch_queue := xs\<rparr>)
   | [] \<Rightarrow> (if ch_sender ch then Blocked else Disconnected, ch))"

definition chan_drop_receiver :: "'a channel \<Rightarrow> 'a channel" where
  "chan_drop_receiver ch = ch\<lparr>ch_queue := [], ch_receiver := False\<rparr>"

text \<open>The contract the handle and the thread rely on: a lossless first-in first-out queue.\<close>

locale fifo_channel =
  fixes send :: "'a \<Rightarrow> 'c \<Rightarrow> 'c option"
    and recv :: "'c \<Rightarrow> 'a received \<times> 'c"
    and pending :: "'c \<Rightarrow> 'a list"
    and open_channel :: "'c \<Rightarrow> bool"
  assumes send_open: "open_channel ch \<Longrightarrow>
      \<exists>ch'. send x ch = Some ch' \<and> pending ch' = pending ch @ [x] \<and> open_channel ch'"
    and send_closed: "\<not> open_channel ch \<Longrightarrow> send x ch = None"
    and recv_pending: "pending ch = x # xs \<Longrightarrow>
      fst (recv ch) = Received x \<and> pending (snd (recv ch)) = xs"
    and recv_open: "open_channel (snd (recv ch)) = open_channel ch"
begin

fun send_all :: "'a list \<Rightarrow> 'c \<Rightarrow> 'c option" where
  "send_all [] ch = Some ch"
| "send_all (x # xs) ch = (case send x ch of None \<Rightarrow> None | Some ch' \<Rightarrow> send_all xs ch')"

fun recv_n :: "nat \<Rightarrow> 'c \<Rightarrow> 'a list \<times> 'c" where
  "recv_n 0 ch = ([], ch)"
| "recv_n (Suc n) ch = (case recv ch of
     (Received x, ch') \<Rightarrow> (let (xs, ch'') = recv_n n ch' in (x # xs, ch''))
   | (_, ch') \<Rightarrow> ([], ch'))"

lemma send_all_pending:
  "open_channel ch \<Longrightarrow> \<exists>ch'. send_all xs ch = Some ch' \<and> pending ch' = pending ch @ xs \<and> open_channel ch'"
proof (induction xs arbitrary: ch)
  case (Cons x xs)
  obtain ch' where ch': "send x ch = Some ch'" "pending ch' = pending ch @ [x]" "open_channel ch'"
    using send_open [OF Cons.prems, of x] by auto
  with Cons.IH [OF ch'(3)] show ?case by auto
qed simp

lemma recv_all_pending: "fst (recv_n (length (pending ch)) ch) = pending ch"
proof (induction "pending ch" arbitrary: ch)
  case (Cons x xs)
  then have r: "fst (recv ch) = Received x" "pending (snd (recv ch)) = xs"
    using recv_pending [of ch x xs] by simp_all
  have "fst (recv_n (length xs) (snd (recv ch))) = xs"
    using Cons.hyps(1) [of "snd (recv ch)"] r(2) by simp
  with r(1) show ?case
    unfolding Cons.hyps(2) [symmetric] by (simp add: case_prod_beta Let_def)
qed (metis fst_conv list.size(3) recv_n.simps(1))

lemma fifo:
  assumes "open_channel ch" and "pending ch = []"
  shows "\<exists>ch'. send_all xs ch = Some ch' \<and> fst (recv_n (length xs) ch') = xs"
proof -
  obtain ch' where "send_all xs ch = Some ch'" "pending ch' = xs"
    using send_all_pending [OF assms(1), of xs] assms(2) by auto
  with recv_all_pending [of ch'] show ?thesis by auto
qed

end

interpretation mpsc: fifo_channel chan_send chan_recv ch_queue ch_receiver
  by unfold_locales (auto simp: chan_send_def chan_recv_def split: list.splits)


section \<open>Messages\<close>

text \<open>
  The value the \<^verbatim>\<open>json!\<close> macro is given. Turning it into text is done by the
  \<^verbatim>\<open>serde_json\<close> crate: the parameter \<open>ser\<close>.
\<close>

datatype json = JString string | JF64 f64 | JU32 u32 | JU64 u64 | JObject "(string \<times> json) list"

definition quote_json :: "stock_quote \<Rightarrow> json" where
  "quote_json q = JObject
     [(''ticker'', JString (ticker q)),
      (''price'', JF64 (price q)),
      (''volume'', JU32 (volume q)),
      (''timestamp'', JU64 (timestamp q))]"

lemma quote_json_inj: "quote_json p = quote_json q \<Longrightarrow> p = q"
  by (simp add: quote_json_def)


section \<open>The client thread\<close>

type_synonym 'w callback = "string \<Rightarrow> 'w \<Rightarrow> (client_error + unit) \<times> 'w"

text \<open>
  \<open>Notifying ts n\<close>: the thread holds the read lock on the quotes, has still to visit the
  tickers \<open>ts\<close>, and \<open>n\<close> is \<^verbatim>\<open>processed_count\<close>.
\<close>

datatype thread_pc = Receiving | Notifying "string list" nat | Finished

record 'w client_thread =
  th_tickers :: "string list"
  th_callback :: "'w callback"
  th_chan :: "client_command channel"
  th_pc :: thread_pc

definition thread_finish :: "'w client_thread \<Rightarrow> 'w client_thread" where
  "thread_finish th = th\<lparr>th_chan := chan_drop_receiver (th_chan th), th_pc := Finished\<rparr>"

definition thread_step ::
    "(json \<Rightarrow> string) \<Rightarrow> quotes \<Rightarrow> bool \<Rightarrow> 'w client_thread \<Rightarrow> 'w \<Rightarrow> ('w client_thread \<times> 'w) option" where
  "thread_step ser all_quotes poisoned th w = (case th_pc th of
     Receiving \<Rightarrow> (case chan_recv (th_chan th) of
         (Received Update, ch) \<Rightarrow>
           Some (th\<lparr>th_chan := ch,
                    th_pc := (if poisoned then Receiving else Notifying (th_tickers th) 0)\<rparr>, w)
       | (Received Shutdown, ch) \<Rightarrow> Some (thread_finish (th\<lparr>th_chan := ch\<rparr>), w)
       | (Disconnected, ch) \<Rightarrow> Some (thread_finish (th\<lparr>th_chan := ch\<rparr>), w)
       | (Blocked, ch) \<Rightarrow> None)
   | Notifying (t # ts) n \<Rightarrow> (case all_quotes t of
         Some q \<Rightarrow>
           (let (r, w') = th_callback th (ser (quote_json q)) w
            in Some (th\<lparr>th_pc := Notifying ts (if is_ok r then n + 1 else n)\<rparr>, w'))
       | None \<Rightarrow> Some (th\<lparr>th_pc := Notifying ts n\<rparr>, w))
   | Notifying [] n \<Rightarrow> Some (th\<lparr>th_pc := Receiving\<rparr>, w)
   | Finished \<Rightarrow> None)"

text \<open>The thread alone: one step per element, with the quotes as that step finds them.\<close>

fun thread_run ::
    "(json \<Rightarrow> string) \<Rightarrow> bool \<Rightarrow> quotes list \<Rightarrow> 'w client_thread \<Rightarrow> 'w \<Rightarrow> ('w client_thread \<times> 'w) option" where
  "thread_run ser p [] th w = Some (th, w)"
| "thread_run ser p (qs # qss) th w = (case thread_step ser qs p th w of
     None \<Rightarrow> None | Some (th', w') \<Rightarrow> thread_run ser p qss th' w')"


section \<open>The runtime\<close>

record 'w runtime =
  rt_threads :: "nat \<Rightarrow> 'w client_thread option"
  rt_next :: nat
  rt_world :: 'w

definition rt_spawn :: "'w client_thread \<Rightarrow> ('w, 'z) runtime_scheme \<Rightarrow> nat \<times> ('w, 'z) runtime_scheme" where
  "rt_spawn th rt = (rt_next rt,
     rt\<lparr>rt_threads := (rt_threads rt)(rt_next rt \<mapsto> th), rt_next := Suc (rt_next rt)\<rparr>)"

definition rt_send :: "nat \<Rightarrow> client_command \<Rightarrow> ('w, 'z) runtime_scheme \<Rightarrow> ('w, 'z) runtime_scheme option" where
  "rt_send t cmd rt = (case rt_threads rt t of
     None \<Rightarrow> None
   | Some th \<Rightarrow> (case chan_send cmd (th_chan th) of
       None \<Rightarrow> None
     | Some ch \<Rightarrow> Some (rt\<lparr>rt_threads := (rt_threads rt)(t \<mapsto> th\<lparr>th_chan := ch\<rparr>)\<rparr>)))"

definition rt_drop_sender :: "nat \<Rightarrow> ('w, 'z) runtime_scheme \<Rightarrow> ('w, 'z) runtime_scheme" where
  "rt_drop_sender t rt = (case rt_threads rt t of
     None \<Rightarrow> rt
   | Some th \<Rightarrow> rt\<lparr>rt_threads := (rt_threads rt)
       (t \<mapsto> th\<lparr>th_chan := (th_chan th)\<lparr>ch_sender := False\<rparr>\<rparr>)\<rparr>)"

definition rt_finished :: "nat \<Rightarrow> ('w, 'z) runtime_scheme \<Rightarrow> bool" where
  "rt_finished t rt = (case rt_threads rt t of None \<Rightarrow> True | Some th \<Rightarrow> th_pc th = Finished)"

definition rt_step ::
    "(json \<Rightarrow> string) \<Rightarrow> quotes \<Rightarrow> bool \<Rightarrow> nat \<Rightarrow> ('w, 'z) runtime_scheme \<Rightarrow> ('w, 'z) runtime_scheme option" where
  "rt_step ser qs poisoned t rt = (case rt_threads rt t of
     None \<Rightarrow> None
   | Some th \<Rightarrow> (case thread_step ser qs poisoned th (rt_world rt) of
       None \<Rightarrow> None
     | Some (th', w') \<Rightarrow>
         Some (rt\<lparr>rt_threads := (rt_threads rt)(t \<mapsto> th'), rt_world := w'\<rparr>)))"


section \<open>The client handle\<close>

record 'w client =
  cl_tickers :: "string list"
  cl_tx :: "nat option"
  cl_thread_handle :: "nat option"
  cl_callback :: "'w callback"

datatype 'r call = Done 'r | Join nat 'r

definition client_new :: "string list \<Rightarrow> 'w callback \<Rightarrow> 'w client" where
  "client_new ts cb = \<lparr>cl_tickers = ts, cl_tx = None, cl_thread_handle = None, cl_callback = cb\<rparr>"

text \<open>Storing the new sender drops the one of an earlier start; an old join handle detaches.\<close>

definition client_start ::
    "'w client \<Rightarrow> ('w, 'z) runtime_scheme \<Rightarrow> (client_error + unit) \<times> 'w client \<times> ('w, 'z) runtime_scheme" where
  "client_start c rt =
     (let (t, rt) = rt_spawn \<lparr>th_tickers = cl_tickers c, th_callback = cl_callback c,
                              th_chan = chan_new, th_pc = Receiving\<rparr> rt;
          rt = (case cl_tx c of None \<Rightarrow> rt | Some old \<Rightarrow> rt_drop_sender old rt)
      in (Inr (), c\<lparr>cl_tx := Some t, cl_thread_handle := Some t\<rparr>, rt))"

definition client_send ::
    "client_command \<Rightarrow> 'w client \<Rightarrow> ('w, 'z) runtime_scheme
     \<Rightarrow> (client_error + unit) call \<times> 'w client \<times> ('w, 'z) runtime_scheme" where
  "client_send cmd c rt = (case cl_tx c of
     None \<Rightarrow>
       (Done (Inl (ClientInitializationError ''Client loop not started or already shutdown'')), c, rt)
   | Some t \<Rightarrow> (case rt_send t cmd rt of
       None \<Rightarrow>
         (Done (Inl (ClientInitializationError
            (''Failed to send command: '' @ ''sending on a closed channel''))), c, rt)
     | Some rt' \<Rightarrow>
         if cmd = Shutdown then
           (case cl_thread_handle c of
              Some h \<Rightarrow> (Join h (Inr ()), c\<lparr>cl_thread_handle := None, cl_tx := None\<rparr>, rt')
            | None \<Rightarrow> (Done (Inr ()), c\<lparr>cl_tx := None\<rparr>, rt_drop_sender t rt'))
         else (Done (Inr ()), c, rt')))"

text \<open>What remains after the join of \<open>client_send\<close>: the sender is dropped.\<close>

definition client_joined :: "nat \<Rightarrow> ('w, 'z) runtime_scheme \<Rightarrow> ('w, 'z) runtime_scheme" where
  "client_joined t rt = rt_drop_sender t rt"

definition client_drop :: "'w client \<Rightarrow> ('w, 'z) runtime_scheme \<Rightarrow> unit call \<times> ('w, 'z) runtime_scheme" where
  "client_drop c rt =
     (let rt' = (case cl_tx c of
            None \<Rightarrow> rt
          | Some t \<Rightarrow> (case rt_send t Shutdown rt of None \<Rightarrow> rt | Some rt' \<Rightarrow> rt'))
      in case cl_thread_handle c of
           Some h \<Rightarrow> (Join h (), rt')
         | None \<Rightarrow> (Done (), (case cl_tx c of None \<Rightarrow> rt' | Some t \<Rightarrow> rt_drop_sender t rt')))"


section \<open>One round of notifications\<close>

definition messages :: "(json \<Rightarrow> string) \<Rightarrow> quotes \<Rightarrow> string list \<Rightarrow> string list" where
  "messages ser qs ts = map (\<lambda>q. ser (quote_json q)) (List.map_filter qs ts)"

definition deliver :: "'w callback \<Rightarrow> string list \<Rightarrow> 'w \<Rightarrow> 'w" where
  "deliver cb ms w = fold (\<lambda>m w. snd (cb m w)) ms w"

lemma messages_simps [simp]:
  "messages ser qs [] = []"
  "messages ser qs (t # ts) =
     (case qs t of None \<Rightarrow> messages ser qs ts | Some q \<Rightarrow> ser (quote_json q) # messages ser qs ts)"
  by (auto simp: messages_def List.map_filter_simps split: option.splits)

lemma deliver_simps [simp]:
  "deliver cb [] w = w"
  "deliver cb (m # ms) w = deliver cb ms (snd (cb m w))"
  by (simp_all add: deliver_def)

lemma thread_run_append:
  "thread_run ser p (qss @ rss) th w = (case thread_run ser p qss th w of
     None \<Rightarrow> None | Some (th', w') \<Rightarrow> thread_run ser p rss th' w')"
  by (induction qss arbitrary: th w) (auto split: option.splits)

lemma thread_run_notifying:
  "th_pc th = Notifying ts n \<Longrightarrow>
   \<exists>n'. thread_run ser p (replicate (length ts) qs) th w =
     Some (th\<lparr>th_pc := Notifying [] n'\<rparr>, deliver (th_callback th) (messages ser qs ts) w)"
proof (induction ts arbitrary: th w n)
  case Nil
  then have "th\<lparr>th_pc := Notifying [] n\<rparr> = th" by (cases th) simp
  then show ?case by (intro exI [of _ n]) simp
next
  case (Cons t ts)
  show ?case
  proof (cases "qs t")
    case None
    then show ?thesis
      using Cons.prems Cons.IH [of "th\<lparr>th_pc := Notifying ts n\<rparr>" n w]
      by (simp add: thread_step_def)
  next
    case (Some q)
    obtain r w' where cb: "th_callback th (ser (quote_json q)) w = (r, w')" by fastforce
    define k where "k = (if is_ok r then n + 1 else n)"
    have "thread_step ser qs p th w = Some (th\<lparr>th_pc := Notifying ts k\<rparr>, w')"
      using Cons.prems Some cb by (simp add: thread_step_def k_def)
    then show ?thesis
      using Some cb Cons.IH [of "th\<lparr>th_pc := Notifying ts k\<rparr>" k w'] by simp
  qed
qed

lemma update_round_aux:
  assumes "th_pc th = Receiving" and "ch_queue (th_chan th) = Update # cmds"
  shows "thread_run ser False (replicate (length (th_tickers th) + 2) qs) th w =
     Some (th\<lparr>th_chan := (th_chan th)\<lparr>ch_queue := cmds\<rparr>\<rparr>,
           deliver (th_callback th) (messages ser qs (th_tickers th)) w)"
proof -
  let ?ts = "th_tickers th"
  let ?th = "th\<lparr>th_chan := (th_chan th)\<lparr>ch_queue := cmds\<rparr>, th_pc := Notifying ?ts 0\<rparr>"
  have recv: "thread_step ser qs False th w = Some (?th, w)"
    using assms by (simp add: thread_step_def chan_recv_def)
  obtain n where "thread_run ser False (replicate (length ?ts) qs) ?th w =
      Some (?th\<lparr>th_pc := Notifying [] n\<rparr>, deliver (th_callback th) (messages ser qs ?ts) w)"
    using thread_run_notifying [of ?th ?ts 0 ser False qs w] by auto
  then have "thread_run ser False (replicate (length ?ts) qs @ [qs]) ?th w =
      Some (?th\<lparr>th_pc := Receiving\<rparr>, deliver (th_callback th) (messages ser qs ?ts) w)"
    by (simp add: thread_run_append thread_step_def)
  moreover have "?th\<lparr>th_pc := Receiving\<rparr> = th\<lparr>th_chan := (th_chan th)\<lparr>ch_queue := cmds\<rparr>\<rparr>"
    using assms(1) by (cases th) simp
  ultimately show ?thesis using recv
    by (simp add: replicate_append_same)
qed

text \<open>
  A client thread that takes an \<open>Update\<close> from its channel while it can read the quotes
  calls the callback exactly once for each subscribed ticker that has a quote, in the order
  of the subscription and with the JSON text of that quote, whatever the callback answers,
  and then waits for the next command with the rest of its channel untouched.
\<close>

lemma update_round:
  assumes "th_pc th = Receiving" and "ch_queue (th_chan th) = Update # cmds"
  shows "thread_run ser False (replicate (length (th_tickers th) + 2) qs) th w =
     Some (th\<lparr>th_chan := (th_chan th)\<lparr>ch_queue := cmds\<rparr>\<rparr>,
           deliver (th_callback th) (messages ser qs (th_tickers th)) w)"
  using assms by (rule update_round_aux)

definition log_callback :: "string list callback" where
  "log_callback m w = (Inr (), w @ [m])"

definition example_thread :: "string list \<Rightarrow> client_command list \<Rightarrow> string list client_thread" where
  "example_thread ts cmds = \<lparr>th_tickers = ts, th_callback = log_callback,
     th_chan = \<lparr>ch_queue = cmds, ch_sender = True, ch_receiver = True\<rparr>, th_pc = Receiving\<rparr>"

lemma update_round_witness:
  "\<exists>th. thread_run (\<lambda>_. ''json'') False (replicate 4 [''A'' \<mapsto> example_quote ''A''])
     (example_thread [''B'', ''A''] [Update, Shutdown]) [] = Some (th, [''json''])"
  using update_round [of "example_thread [''B'', ''A''] [Update, Shutdown]" "[Shutdown]"
      "\<lambda>_. ''json''" "[''A'' \<mapsto> example_quote ''A'']" "[]"]
  by (simp add: example_thread_def log_callback_def eval_nat_numeral)

section \<open>Joining a client thread\<close>

text \<open>The steps a thread still takes before it finishes, once a \<open>Shutdown\<close> is in its channel.\<close>

fun queue_work :: "bool \<Rightarrow> nat \<Rightarrow> client_command list \<Rightarrow> nat" where
  "queue_work p k [] = 0"
| "queue_work p k (Update # cs) = (if p then 1 else k + 2) + queue_work p k cs"
| "queue_work p k (Shutdown # cs) = 1"

definition thread_work :: "bool \<Rightarrow> 'w client_thread \<Rightarrow> nat" where
  "thread_work p th =
     (let q = queue_work p (length (th_tickers th)) (ch_queue (th_chan th)) in
      case th_pc th of Receiving \<Rightarrow> q | Notifying ts n \<Rightarrow> length ts + 1 + q | Finished \<Rightarrow> 0)"

lemma queue_work_pos: "Shutdown \<in> set q \<Longrightarrow> 0 < queue_work p k q"
  by (induction p k q rule: queue_work.induct) auto

lemma thread_step_frame:
  "thread_step ser qs p th w = Some (th', w') \<Longrightarrow>
   th_tickers th' = th_tickers th \<and> th_callback th' = th_callback th \<and>
   ch_sender (th_chan th') = ch_sender (th_chan th)"
  by (auto simp: thread_step_def thread_finish_def chan_recv_def chan_drop_receiver_def
      split: thread_pc.splits list.splits option.splits prod.splits received.splits
        client_command.splits if_splits)

lemma thread_step_work:
  assumes "th_pc th \<noteq> Finished" and "Shutdown \<in> set (ch_queue (th_chan th))"
  shows "\<exists>th' w'. thread_step ser qs p th w = Some (th', w') \<and>
     thread_work p th = Suc (thread_work p th') \<and>
     (th_pc th' = Finished \<or> Shutdown \<in> set (ch_queue (th_chan th')))"
proof (cases "th_pc th")
  case Receiving
  obtain c cs where q: "ch_queue (th_chan th) = c # cs"
    using assms(2) by (cases "ch_queue (th_chan th)") auto
  show ?thesis
  proof (cases c)
    case Update
    with assms(2) q Receiving show ?thesis
      by (auto simp: thread_step_def chan_recv_def thread_work_def)
  next
    case Shutdown
    with q Receiving show ?thesis
      by (auto simp: thread_step_def chan_recv_def thread_work_def thread_finish_def)
  qed
next
  case (Notifying ts n)
  with assms(2) show ?thesis
    by (cases ts)
      (auto simp: thread_step_def thread_work_def split: option.splits prod.splits)
qed (use assms(1) in simp)

lemma thread_join_terminates_aux:
  assumes "th_pc th \<noteq> Finished" and "Shutdown \<in> set (ch_queue (th_chan th))"
    and "length qss = thread_work p th"
  shows "\<exists>th' w'. thread_run ser p qss th w = Some (th', w') \<and> th_pc th' = Finished"
  using assms
proof (induction qss arbitrary: th w)
  case Nil
  then have "thread_work p th = 0" by simp
  with Nil.prems(1) queue_work_pos [OF Nil.prems(2), of p "length (th_tickers th)"] have False
    by (auto simp: thread_work_def Let_def split: thread_pc.splits)
  then show ?case ..
next
  case (Cons qs qss)
  obtain th' w' where st: "thread_step ser qs p th w = Some (th', w')"
    and wk: "thread_work p th = Suc (thread_work p th')"
    and d: "th_pc th' = Finished \<or> Shutdown \<in> set (ch_queue (th_chan th'))"
    using thread_step_work [OF Cons.prems(1,2)] by blast
  show ?case
  proof (cases "th_pc th' = Finished")
    case True
    then have "thread_work p th' = 0" by (simp add: thread_work_def)
    with wk Cons.prems(3) have "qss = []" by simp
    with st True show ?thesis by simp
  next
    case False
    with d wk st Cons.prems(3) Cons.IH [of th' w'] show ?thesis by simp
  qed
qed

text \<open>
  C18: waiting for a client thread ends. Once a \<open>Shutdown\<close> is in its channel the thread is
  never blocked and finishes after exactly \<open>thread_work\<close> steps of its own, whatever the
  quotes are at each of them and whatever the callback does.
\<close>

theorem thread_join_terminates:
  assumes "th_pc th \<noteq> Finished" and "Shutdown \<in> set (ch_queue (th_chan th))"
    and "length qss = thread_work p th"
  shows "\<exists>th' w'. thread_run ser p qss th w = Some (th', w') \<and> th_pc th' = Finished"
  using assms by (rule thread_join_terminates_aux)

theorem thread_join_terminates_witness:
  "\<exists>th' w'. thread_run (\<lambda>_. ''json'') False (replicate 5 Map.empty)
     (example_thread [''A'', ''B''] [Update, Shutdown]) [] = Some (th', w') \<and> th_pc th' = Finished"
  by (rule thread_join_terminates) (simp_all add: example_thread_def thread_work_def)

section \<open>The life of a handle\<close>

lemma rt_send_eq:
  "rt_send t cmd rt = Some rt' \<longleftrightarrow>
   (\<exists>th. rt_threads rt t = Some th \<and> ch_receiver (th_chan th) \<and>
      rt' = rt\<lparr>rt_threads := (rt_threads rt)
        (t \<mapsto> th\<lparr>th_chan := (th_chan th)\<lparr>ch_queue := ch_queue (th_chan th) @ [cmd]\<rparr>\<rparr>)\<rparr>)"
  by (auto simp: rt_send_def chan_send_def split: option.splits if_splits)

lemma rt_send_open:
  assumes "rt_threads rt t = Some th" and "ch_receiver (th_chan th)"
  shows "rt_send t cmd rt = Some (rt\<lparr>rt_threads := (rt_threads rt)
        (t \<mapsto> th\<lparr>th_chan := (th_chan th)\<lparr>ch_queue := ch_queue (th_chan th) @ [cmd]\<rparr>\<rparr>)\<rparr>)"
  using assms by (simp add: rt_send_eq)

text \<open>
  The life of a handle. Before it is started every send fails; starting spawns a new
  waiting thread with the handle's tickers; then sends arrive in its channel; sending
  \<open>Shutdown\<close> waits for that thread, and on the handle it leaves every later send fails.
\<close>

lemma client_lifecycle:
  fixes rt :: "('w, 'z) runtime_scheme"
  shows "case client_start (client_new ts cb) rt of (r, c, rt1) \<Rightarrow>
     client_send cmd (client_new ts cb) rt =
       (Done (Inl (ClientInitializationError ''Client loop not started or already shutdown'')),
        client_new ts cb, rt) \<and>
     r = Inr () \<and>
     rt_threads rt1 = (rt_threads rt)(rt_next rt \<mapsto>
       \<lparr>th_tickers = ts, th_callback = cb, th_chan = chan_new, th_pc = Receiving\<rparr>) \<and>
     (\<exists>rt2. client_send Update c rt1 = (Done (Inr ()), c, rt2) \<and>
        map_option (\<lambda>th. ch_queue (th_chan th)) (rt_threads rt2 (rt_next rt)) = Some [Update]) \<and>
     (\<exists>rt2 c2. client_send Shutdown c rt1 = (Join (rt_next rt) (Inr ()), c2, rt2) \<and>
        map_option (\<lambda>th. ch_queue (th_chan th)) (rt_threads rt2 (rt_next rt)) = Some [Shutdown] \<and>
        fst (client_send cmd c2 rt2) =
          Done (Inl (ClientInitializationError ''Client loop not started or already shutdown'')))"
  by (auto simp: client_start_def client_new_def client_send_def rt_spawn_def rt_send_def
      chan_send_def chan_new_def)

end
