(* ===== verification/Rust_IO.thy ===== *)
theory Rust_IO
  imports Errors
begin

text \<open>
  The buffered readers of Rust's standard library as the program uses them:
  \<^verbatim>\<open>BufRead::lines\<close> over a file and \<^verbatim>\<open>BufReader::read_line\<close> over a socket with a read
  timeout. A file is its bytes and the error, if any, that ends reading; a socket is the
  list of results its \<^verbatim>\<open>read\<close> calls return.
\<close>

definition newline :: char where
  "newline = CHR 0x0A"

definition invalid_utf8 :: io_error where
  "invalid_utf8 = \<lparr>io_kind = InvalidData, io_message = ''stream did not contain valid UTF-8''\<rparr>"


section \<open>Lines of a file\<close>

record file_data =
  fd_bytes :: string
  fd_error :: "io_error option"

definition strip_cr :: "string \<Rightarrow> string" where
  "strip_cr l = (if l \<noteq> [] \<and> last l = CHR 0x0D then butlast l else l)"

definition check_utf8 :: "string \<Rightarrow> io_error + string" where
  "check_utf8 l = (if utf8_valid l then Inr l else Inl invalid_utf8)"

text \<open>The items \<^verbatim>\<open>reader.lines()\<close> yields; a read error discards the unfinished line.\<close>

definition file_lines :: "file_data \<Rightarrow> (io_error + string) list" where
  "file_lines f =
     (let ps = split_on (\<lambda>c. c = newline) (fd_bytes f) in
      map (\<lambda>l. map_sum id strip_cr (check_utf8 l)) (butlast ps) @
      (case fd_error f of
         Some e \<Rightarrow> [Inl e]
       | None \<Rightarrow> if last ps = [] then [] else [check_utf8 (last ps)]))"


section \<open>Reading a line from a socket\<close>

text \<open>\<open>Data bs\<close> with \<open>bs\<close> non-empty, end of file, or an error such as the read timeout.\<close>

datatype read_event = Data string | Eof | ReadFail io_error

text \<open>
  \<open>read_until\<close>: take bytes from the buffer up to and including a newline; when the buffer
  holds none, append it all and refill. An interrupted read is retried. The result is the
  accumulated bytes with \<open>None\<close>, or with the error that stopped the loop; it is absent when
  the events run out first (the thread is still blocked). The bytes read so far are in
  the accumulator also after an error: they have left the buffer.
\<close>

fun read_until :: "string \<Rightarrow> string \<Rightarrow> read_event list
    \<Rightarrow> (string \<times> io_error option \<times> string \<times> read_event list) option" where
  "read_until acc buf evs =
     (if newline \<in> set buf then
        Some (acc @ takeWhile (\<lambda>c. c \<noteq> newline) buf @ [newline], None,
              tl (dropWhile (\<lambda>c. c \<noteq> newline) buf), evs)
      else (case evs of
          [] \<Rightarrow> None
        | Data bs # evs' \<Rightarrow> read_until (acc @ buf) bs evs'
        | Eof # evs' \<Rightarrow> Some (acc @ buf, None, [], evs')
        | ReadFail e # evs' \<Rightarrow>
            if io_kind e = Interrupted then read_until (acc @ buf) [] evs'
            else Some (acc @ buf, Some e, [], evs')))"

declare read_until.simps [simp del]

text \<open>
  \<^verbatim>\<open>read_line\<close> into an empty \<^verbatim>\<open>String\<close>: the number of bytes and the text. Bytes that are
  not UTF-8 are discarded and reported, unless the read itself failed.
\<close>

datatype read_outcome = ReadOk nat string | ReadErr io_error

definition line_outcome :: "string \<Rightarrow> io_error option \<Rightarrow> read_outcome" where
  "line_outcome bs err = (case err of
     Some e \<Rightarrow> ReadErr e
   | None \<Rightarrow> if utf8_valid bs then ReadOk (length bs) bs else ReadErr invalid_utf8)"

definition read_line :: "string \<Rightarrow> read_event list \<Rightarrow> (read_outcome \<times> string \<times> read_event list) option" where
  "read_line buf evs = (case read_until [] buf evs of
     None \<Rightarrow> None
   | Some (bs, err, buf', evs') \<Rightarrow> Some (line_outcome bs err, buf', evs'))"

text \<open>
  How the bytes of a line are cut into reads does not matter as long as no read fails: the
  line and what is left over are those of the concatenation.
\<close>

fun event_bytes :: "read_event list \<Rightarrow> string" where
  "event_bytes [] = []"
| "event_bytes (Data bs # evs) = bs @ event_bytes evs"
| "event_bytes (_ # evs) = event_bytes evs"

definition all_data :: "read_event list \<Rightarrow> bool" where
  "all_data evs \<longleftrightarrow> list_all (\<lambda>e. case e of Data _ \<Rightarrow> True | _ \<Rightarrow> False) evs"

lemma read_until_chunks:
  assumes "all_data evs" and "newline \<notin> set l" and "buf @ event_bytes evs = l @ newline # rest"
  shows "\<exists>buf' evs'. read_until acc buf evs = Some (acc @ l @ [newline], None, buf', evs') \<and>
     all_data evs' \<and> buf' @ event_bytes evs' = rest"
  using assms
proof (induction acc buf evs arbitrary: l rule: read_until.induct)
  case (1 acc buf evs)
  show ?case
  proof (cases "newline \<in> set buf")
    case True
    then obtain xs ys where buf: "buf = xs @ newline # ys" "newline \<notin> set xs"
      by (metis split_list_first)
    then have "xs = l \<and> ys @ event_bytes evs = rest"
      using first_sep_unique [of xs newline "ys @ event_bytes evs" l rest] "1.prems"(2,3) by simp
    moreover have "takeWhile (\<lambda>c. c \<noteq> newline) buf = xs"
      and "dropWhile (\<lambda>c. c \<noteq> newline) buf = newline # ys"
      unfolding buf(1) using buf(2)
      by (auto intro!: takeWhile_append_stop dropWhile_append_stop)
    ultimately show ?thesis
      using True "1.prems"(1) by (auto simp: read_until.simps [of acc buf evs])
  next
    case False
    then obtain bs evs' where evs: "evs = Data bs # evs'"
    proof -
      have "evs \<noteq> []" using False "1.prems"(3) by auto
      then show thesis using that "1.prems"(1)
        by (cases evs) (auto simp: all_data_def split: read_event.splits)
    qed
    obtain l' where l': "l = buf @ l'"
      using prefix_before_sep [OF "1.prems"(3) False] by blast
    have "all_data evs'" and "newline \<notin> set l'" and "bs @ event_bytes evs' = l' @ newline # rest"
      using "1.prems" evs l' by (auto simp: all_data_def)
    from "1.IH"(1) [OF False evs _ this] show ?thesis
      using False evs l' by (simp add: read_until.simps [of acc buf "Data bs # evs'"])
  qed
qed

text \<open>What a read leaves of the events plays no part in it.\<close>

lemma read_until_prefix:
  "read_until acc buf evs = Some (bs, err, buf', evs') \<Longrightarrow>
   \<exists>pre. evs = pre @ evs' \<and> read_until acc buf pre = Some (bs, err, buf', [])"
proof (induction acc buf evs rule: read_until.induct)
  case (1 acc buf evs)
  show ?case
  proof (cases "newline \<in> set buf")
    case True
    with "1.prems" show ?thesis
      by (intro exI [of _ "[]"]) (auto simp: read_until.simps [of acc buf evs] read_until.simps [of acc buf "[]"])
  next
    case False
    note now = read_until.simps [of acc buf evs]
    show ?thesis
    proof (cases evs)
      case Nil
      with False "1.prems" now show ?thesis by simp
    next
      case (Cons e es)
      have grow: "\<exists>pre. evs = pre @ evs' \<and> read_until acc buf pre = Some (bs, err, buf', [])"
        if "\<exists>pre. es = pre @ evs' \<and> read_until (acc @ buf) b pre = Some (bs, err, buf', [])"
          and "\<And>p. read_until acc buf (e # p) = read_until (acc @ buf) b p" for b
        using that Cons by (metis append_Cons)
      show ?thesis
      proof (cases e)
        case (Data b)
        with False "1.prems" now Cons have "read_until (acc @ buf) b es = Some (bs, err, buf', evs')" by simp
        from "1.IH"(1) [OF False Cons Data this] Data False show ?thesis
          by (intro grow [of b]) (simp_all add: read_until.simps [of acc buf "Data b # _"])
      next
        case Eof
        with False "1.prems" now Cons show ?thesis
          by (intro exI [of _ "[Eof]"]) (auto simp: read_until.simps [of acc buf "[Eof]"])
      next
        case (ReadFail x)
        show ?thesis
        proof (cases "io_kind x = Interrupted")
          case True
          with False "1.prems" now Cons ReadFail
          have "read_until (acc @ buf) [] es = Some (bs, err, buf', evs')" by simp
          from "1.IH"(2) [OF False Cons ReadFail True this] ReadFail True False show ?thesis
            by (intro grow [of "[]"]) (simp_all add: read_until.simps [of acc buf "ReadFail x # _"])
        next
          case nf: False
          with False "1.prems" now Cons ReadFail show ?thesis
            by (intro exI [of _ "[ReadFail x]"]) (auto simp: read_until.simps [of acc buf "[ReadFail x]"])
        qed
      qed
    qed
  qed
qed

end
