(* ===== verification/Quote_Server.thy ===== *)
theory Quote_Server
  imports Client Rust_IO
begin

text \<open>
  \<^verbatim>\<open>src/quote_server.rs\<close>. The record \<open>quote_server\<close> holds the fields of the struct, the
  runtime of the client threads, and the background threads. A mutex or lock appears as
  what the code can observe of it: whether it is poisoned, and for the clients mutex
  whether an operation that is waiting for a join holds it. Everything done under a lock
  without waiting is one atomic step. File contents, random draws, clock readings and the
  order in which a hash map is iterated are arguments.
\<close>

section \<open>State\<close>

text \<open>
  The background thread: before the test of the shutdown flag; asleep until an instant;
  in \<open>update_quotes\<close> (begun at an instant), about to try the write lock or asleep before
  the next attempt; about to notify; stopped. Instants are in milliseconds.
\<close>

datatype bg_pc =
    BgChecking
  | BgSleeping nat
  | BgUpdating nat
  | BgRetrying nat nat
  | BgNotifying
  | BgStopped

record 'w quote_server = "'w runtime" +
  quotes :: quotes
  quotes_poisoned :: bool
  generator :: quote_generator
  clients :: "u64 \<rightharpoonup> 'w client"
  clients_poisoned :: bool
  clients_locked :: bool
  clients_count :: u64
  bg_thread :: "nat option"
  bg_poisoned :: bool
  shutdown_flag :: bool
  bg_threads :: "nat \<rightharpoonup> bg_pc"
  bg_next :: nat

text \<open>What lies outside the repository, and the random draws and clock of one update pass.\<close>

record 'd externals =
  x_ser :: "json \<Rightarrow> string"
  x_lognormal :: "f64 \<Rightarrow> f64 \<Rightarrow> normal_error + 'd"
  x_upper :: "string \<Rightarrow> string"

record 'd pass =
  pass_draws :: "'d \<Rightarrow> string \<Rightarrow> draw"
  pass_order :: "string list"


section \<open>Construction\<close>

text \<open>
  The loop of \<^verbatim>\<open>from_config\<close> over the lines: the map built so far and \<^verbatim>\<open>ticker_count\<close>, which
  also numbers the random draws and clock readings of \<^verbatim>\<open>StockQuote::new\<close>.
\<close>

fun load_tickers ::
    "(string \<Rightarrow> string) \<Rightarrow> (nat \<Rightarrow> f64) \<Rightarrow> (nat \<Rightarrow> clock_reading) \<Rightarrow> (io_error + string) list
     \<Rightarrow> quotes \<Rightarrow> nat \<Rightarrow> quote_server_error + quotes \<times> nat" where
  "load_tickers tbl rnd clk [] m n = Inr (m, n)"
| "load_tickers tbl rnd clk (Inl e # ls) m n = Inl (InvalidConfig (io_message e))"
| "load_tickers tbl rnd clk (Inr l # ls) m n =
     (let t = to_uppercase tbl (trim l) in
      if t = [] then load_tickers tbl rnd clk ls m n
      else load_tickers tbl rnd clk ls (m(t \<mapsto> new_quote (rnd n) (clk n) t)) (n + 1))"

definition initial_server :: "quotes \<Rightarrow> quote_generator \<Rightarrow> 'w \<Rightarrow> 'w quote_server" where
  "initial_server m g w =
     \<lparr>rt_threads = Map.empty, rt_next = 0, rt_world = w,
      quotes = m, quotes_poisoned = False, generator = g,
      clients = Map.empty, clients_poisoned = False, clients_locked = False,
      clients_count = 0, bg_thread = None, bg_poisoned = False, shutdown_flag = False,
      bg_threads = Map.empty, bg_next = 0\<rparr>"

definition from_config ::
    "(string \<Rightarrow> string) \<Rightarrow> (nat \<Rightarrow> f64) \<Rightarrow> (nat \<Rightarrow> clock_reading) \<Rightarrow> 'w \<Rightarrow> io_error + file_data
     \<Rightarrow> quote_server_error + 'w quote_server" where
  "from_config tbl rnd clk w file = (case file of
     Inl e \<Rightarrow> Inl (InvalidConfig (io_message e))
   | Inr f \<Rightarrow> (case load_tickers tbl rnd clk (file_lines f) Map.empty 0 of
       Inl e \<Rightarrow> Inl e
     | Inr (m, n) \<Rightarrow> (case generator_new VOLATILITY of
         Inl _ \<Rightarrow> Inl (ServerInitializationError ''Failed to create Quote Generator'')
       | Inr g \<Rightarrow> Inr (initial_server m g w))))"


section \<open>Clients\<close>

text \<open>The clients mutex stays held while the operation waits for a join.\<close>

definition hold :: "'r call \<times> 'w quote_server \<Rightarrow> 'r call \<times> 'w quote_server" where
  "hold ks = (case ks of
     (Done r, s) \<Rightarrow> (Done r, s)
   | (Join t r, s) \<Rightarrow> (Join t r, s\<lparr>clients_locked := True\<rparr>))"

text \<open>
  Inserting under an id that is present drops the client it held; that happens only after
  the 64-bit counter has wrapped.
\<close>

definition add_client ::
    "string list \<Rightarrow> 'w callback \<Rightarrow> 'w quote_server \<Rightarrow> (quote_server_error + u64) call \<times> 'w quote_server" where
  "add_client ts cb s =
     (if clients_poisoned s then (Done (Inl (ServerClientError ''Failed to lock clients'')), s)
      else (case client_start (client_new ts cb) s of
          (Inl e, c, s) \<Rightarrow>
            (let (k, s) = client_drop c s in hold (map_call (\<lambda>_. Inl (server_error_from e)) k, s))
        | (Inr _, c, s) \<Rightarrow>
            (let cid = clients_count s;
                 s = s\<lparr>clients_count := cid + 1\<rparr>;
                 displaced = clients s cid;
                 s = s\<lparr>clients := (clients s)(cid \<mapsto> c)\<rparr>
             in case displaced of
                  None \<Rightarrow> (Done (Inr cid), s)
                | Some old \<Rightarrow>
                    (let (k, s) = client_drop old s in hold (map_call (\<lambda>_. Inr cid) k, s)))))"

definition remove_client ::
    "u64 \<Rightarrow> 'w quote_server \<Rightarrow> (quote_server_error + unit) call \<times> 'w quote_server" where
  "remove_client cid s =
     (if clients_poisoned s then (Done (Inl (ServerClientError ''Failed to lock clients'')), s)
      else (case clients s cid of
          None \<Rightarrow> (Done (Inr ()), s)
        | Some c \<Rightarrow>
            (case client_send Shutdown c (s\<lparr>clients := (clients s)(cid := None)\<rparr>) of
               (Join t r, c, s) \<Rightarrow> hold (Join t (map_err server_error_from r), s)
             | (Done r, c, s) \<Rightarrow>
                 (let (k, s) = client_drop c s
                  in hold (map_call (\<lambda>_. map_err server_error_from r) k, s)))))"

text \<open>The end of the wait: enabled once the joined thread has finished.\<close>

definition call_resume :: "nat \<Rightarrow> 'w quote_server \<Rightarrow> 'w quote_server option" where
  "call_resume t s =
     (if rt_finished t s then Some ((client_joined t s)\<lparr>clients_locked := False\<rparr>) else None)"

text \<open>\<open>ids\<close>: the order in which the map of clients is iterated. A failed send is only logged.\<close>

fun notify_loop :: "u64 list \<Rightarrow> 'w quote_server \<Rightarrow> 'w quote_server" where
  "notify_loop [] s = s"
| "notify_loop (cid # ids) s = (case clients s cid of
     None \<Rightarrow> notify_loop ids s
   | Some c \<Rightarrow>
       (let (k, c', s') = client_send Update c s
        in notify_loop ids (s'\<lparr>clients := (clients s')(cid \<mapsto> c')\<rparr>)))"

definition notify_clients :: "u64 list \<Rightarrow> 'w quote_server \<Rightarrow> (quote_server_error + unit) \<times> 'w quote_server" where
  "notify_clients ids s =
     (if clients_poisoned s then (Inl (UpdateQuoteError ''Failed to lock clients''), s)
      else (Inr (), notify_loop ids s))"


section \<open>Updating the quotes\<close>

definition is_notifying :: "thread_pc \<Rightarrow> bool" where
  "is_notifying pc = (case pc of Notifying _ _ \<Rightarrow> True | _ \<Rightarrow> False)"

text \<open>\<^verbatim>\<open>try_write\<close> succeeds when no client thread holds the read lock and the lock is not poisoned.\<close>

definition read_locked :: "('w, 'z) runtime_scheme \<Rightarrow> bool" where
  "read_locked s \<longleftrightarrow> list_ex (\<lambda>t. case rt_threads s t of
     None \<Rightarrow> False | Some th \<Rightarrow> is_notifying (th_pc th)) [0..<rt_next s]"

definition try_write :: "'w quote_server \<Rightarrow> bool" where
  "try_write s \<longleftrightarrow> \<not> read_locked s \<and> \<not> quotes_poisoned s"

datatype attempt = Retry | Returned "quote_server_error + unit"

text \<open>One round of the loop of \<^verbatim>\<open>update_quotes\<close>, \<open>elapsed\<close> milliseconds after its start.\<close>

definition update_attempt ::
    "'d externals \<Rightarrow> 'd pass \<Rightarrow> nat \<Rightarrow> 'w quote_server \<Rightarrow> attempt \<times> 'w quote_server" where
  "update_attempt ext p elapsed s =
     (if elapsed < WRITE_TIMEOUT_MS then
        (if try_write s then
           (let (r, m) = update_quotes (x_lognormal ext) (pass_draws p) (pass_order p) (generator s) (quotes s)
            in (Returned (map_err (\<lambda>_. UpdateQuoteError ''Failed to update quotes'') r), s\<lparr>quotes := m\<rparr>))
         else (Retry, s))
      else (Returned (Inl (UpdateQuoteError (''Timeout after '' @ ''1s''))), s))"

text \<open>
  The whole loop, given the elapsed time and the state each round finds; no result when
  the rounds run out before it returns.
\<close>

fun update_loop ::
    "'d externals \<Rightarrow> 'd pass \<Rightarrow> (nat \<times> 'w quote_server) list
     \<Rightarrow> ((quote_server_error + unit) \<times> 'w quote_server) option" where
  "update_loop ext p [] = None"
| "update_loop ext p ((elapsed, s) # obs) = (case update_attempt ext p elapsed s of
     (Returned r, s') \<Rightarrow> Some (r, s')
   | (Retry, _) \<Rightarrow> update_loop ext p obs)"


section \<open>The background thread\<close>

definition server_start :: "'w quote_server \<Rightarrow> (quote_server_error + unit) \<times> 'w quote_server" where
  "server_start s =
     (if bg_poisoned s
      then (Inl (ServerInitializationError ''poisoned lock: another task failed inside''), s)
      else if bg_thread s \<noteq> None then (Inr (), s)
      else (Inr (), s\<lparr>bg_thread := Some (bg_next s),
                      bg_threads := (bg_threads s)(bg_next s \<mapsto> BgChecking),
                      bg_next := Suc (bg_next s)\<rparr>))"

definition server_shutdown :: "'w quote_server \<Rightarrow> unit call \<times> 'w quote_server" where
  "server_shutdown s =
     (let s = s\<lparr>shutdown_flag := True\<rparr> in
      if bg_poisoned s then (Done (), s)
      else (case bg_thread s of
          Some t \<Rightarrow> (Join t (), s\<lparr>bg_thread := None\<rparr>)
        | None \<Rightarrow> (Done (), s)))"

text \<open>\<^verbatim>\<open>Drop\<close>.\<close>

definition server_drop :: "'w quote_server \<Rightarrow> unit call \<times> 'w quote_server" where
  "server_drop s = server_shutdown s"

text \<open>One step of background thread \<open>t\<close> at instant \<open>clock\<close>; \<open>ids\<close> as for \<open>notify_clients\<close>.\<close>

definition bg_step ::
    "'d externals \<Rightarrow> 'd pass \<Rightarrow> u64 list \<Rightarrow> nat \<Rightarrow> nat \<Rightarrow> 'w quote_server \<Rightarrow> 'w quote_server option" where
  "bg_step ext p ids clock t s = (case bg_threads s t of
     None \<Rightarrow> None
   | Some pc \<Rightarrow>
       (let goto = (\<lambda>pc' s'. Some (s'\<lparr>bg_threads := (bg_threads s')(t \<mapsto> pc')\<rparr>)) in
        case pc of
          BgChecking \<Rightarrow>
            (if shutdown_flag s then goto BgStopped s
             else goto (BgSleeping (clock + SERVER_TICK_PERIOD_MSEC)) s)
        | BgSleeping u \<Rightarrow> (if u \<le> clock then goto (BgUpdating clock) s else None)
        | BgUpdating start \<Rightarrow>
            (case update_attempt ext p (clock - start) s of
               (Returned r, s') \<Rightarrow> goto BgNotifying s'
             | (Retry, s') \<Rightarrow> goto (BgRetrying start (clock + QUOTE_UPDATE_RETRY_PERIOD_MSEC)) s')
        | BgRetrying start u \<Rightarrow> (if u \<le> clock then goto (BgUpdating start) s else None)
        | BgNotifying \<Rightarrow>
            (if clients_locked s then None else goto BgChecking (snd (notify_clients ids s)))
        | BgStopped \<Rightarrow> None))"


section \<open>The invariant\<close>

text \<open>
  A live thread is neither finished nor about to finish: its channel is open at both ends
  and holds no \<open>Shutdown\<close>. Every registered client is served by a live thread of its own
  that has the client's tickers and callback; thread numbers at and above \<open>rt_next\<close> are
  unused; a thread has dropped its receiver exactly when it has finished; and every quote is
  stored under its ticker.
\<close>

definition live :: "'w client_thread \<Rightarrow> bool" where
  "live th \<longleftrightarrow> ch_receiver (th_chan th) \<and> ch_sender (th_chan th) \<and>
     Shutdown \<notin> set (ch_queue (th_chan th)) \<and> th_pc th \<noteq> Finished"

definition serves :: "('w, 'z) runtime_scheme \<Rightarrow> 'w client \<Rightarrow> nat \<Rightarrow> bool" where
  "serves s c t \<longleftrightarrow> cl_tx c = Some t \<and> cl_thread_handle c = Some t \<and>
     (\<exists>th. rt_threads s t = Some th \<and> live th \<and> th_tickers th = cl_tickers c \<and>
        th_callback th = cl_callback c)"

definition all_served :: "'w quote_server \<Rightarrow> bool" where
  "all_served s \<longleftrightarrow> (\<forall>cid c. clients s cid = Some c \<longrightarrow> (\<exists>t. serves s c t))"

definition own_threads :: "'w quote_server \<Rightarrow> bool" where
  "own_threads s \<longleftrightarrow> (\<forall>i j c d. clients s i = Some c \<longrightarrow> clients s j = Some d \<longrightarrow>
     cl_tx c = cl_tx d \<longrightarrow> i = j)"

definition threads_ok :: "('w, 'z) runtime_scheme \<Rightarrow> bool" where
  "threads_ok s \<longleftrightarrow> (\<forall>t. rt_next s \<le> t \<longrightarrow> rt_threads s t = None) \<and>
     (\<forall>t th. rt_threads s t = Some th \<longrightarrow>
        (ch_receiver (th_chan th) \<longleftrightarrow> th_pc th \<noteq> Finished))"

definition server_inv :: "'w quote_server \<Rightarrow> bool" where
  "server_inv s \<longleftrightarrow> all_served s \<and> own_threads s \<and> threads_ok s \<and> quotes_wf (quotes s)"

lemmas server_inv_defs = server_inv_def all_served_def own_threads_def threads_ok_def serves_def

definition push_cmd :: "client_command \<Rightarrow> 'w client_thread \<Rightarrow> 'w client_thread" where
  "push_cmd cmd th = th\<lparr>th_chan := (th_chan th)\<lparr>ch_queue := ch_queue (th_chan th) @ [cmd]\<rparr>\<rparr>"

lemma push_cmd_simps [simp]:
  "th_tickers (push_cmd cmd th) = th_tickers th"
  "th_callback (push_cmd cmd th) = th_callback th"
  "th_pc (push_cmd cmd th) = th_pc th"
  "ch_receiver (th_chan (push_cmd cmd th)) = ch_receiver (th_chan th)"
  "ch_sender (th_chan (push_cmd cmd th)) = ch_sender (th_chan th)"
  "ch_queue (th_chan (push_cmd cmd th)) = ch_queue (th_chan th) @ [cmd]"
  by (simp_all add: push_cmd_def)

lemma live_push_Update [simp]: "live (push_cmd Update th) = live th"
  by (simp add: live_def)

text \<open>The invariant reads four fields; an operation that leaves them alone keeps it.\<close>

lemma server_inv_cong:
  "clients s' = clients s \<Longrightarrow> rt_threads s' = rt_threads s \<Longrightarrow> rt_next s' = rt_next s \<Longrightarrow>
   quotes s' = quotes s \<Longrightarrow> server_inv s' = server_inv s"
  by (simp add: server_inv_defs)

text \<open>The threads may change as long as those that serve clients keep doing so.\<close>

lemma server_inv_threads:
  assumes inv: "server_inv s"
    and same: "clients s' = clients s" "rt_next s' = rt_next s" "quotes s' = quotes s"
    and dom: "dom (rt_threads s') = dom (rt_threads s)"
    and th: "\<And>t th'. rt_threads s' t = Some th' \<Longrightarrow>
      \<exists>th. rt_threads s t = Some th \<and> th_tickers th' = th_tickers th \<and>
        th_callback th' = th_callback th \<and> (live th \<longrightarrow> live th') \<and>
        (ch_receiver (th_chan th') \<longleftrightarrow> th_pc th' \<noteq> Finished)"
  shows "server_inv s'"
proof -
  have "\<exists>t. serves s' c t" if c: "clients s cid = Some c" for cid c
  proof -
    obtain t th' where t: "cl_tx c = Some t" "cl_thread_handle c = Some t" "rt_threads s t = Some th'"
        "live th'" "th_tickers th' = cl_tickers c" "th_callback th' = cl_callback c"
      using inv c unfolding server_inv_defs by blast
    then obtain th'' where "rt_threads s' t = Some th''" using dom by blast
    with t th [of t th''] show ?thesis by (auto simp: serves_def)
  qed
  moreover have "rt_threads s' t = None" if "rt_next s' \<le> t" for t
  proof -
    have "rt_threads s t = None" using inv same that by (simp add: server_inv_defs)
    then show ?thesis using dom by (metis domIff)
  qed
  moreover have "ch_receiver (th_chan th') \<longleftrightarrow> th_pc th' \<noteq> Finished" if "rt_threads s' t = Some th'" for t th'
    using th [OF that] by blast
  ultimately show ?thesis
    using inv same by (simp add: server_inv_def all_served_def own_threads_def threads_ok_def)
qed


section \<open>What the client operations do to a server that satisfies it\<close>

definition new_thread :: "string list \<Rightarrow> 'w callback \<Rightarrow> 'w client_thread" where
  "new_thread ts cb = \<lparr>th_tickers = ts, th_callback = cb, th_chan = chan_new, th_pc = Receiving\<rparr>"

definition started_client :: "string list \<Rightarrow> 'w callback \<Rightarrow> nat \<Rightarrow> 'w client" where
  "started_client ts cb t =
     \<lparr>cl_tickers = ts, cl_tx = Some t, cl_thread_handle = Some t, cl_callback = cb\<rparr>"

lemma client_start_new:
  "client_start (client_new ts cb) s =
   (Inr (), started_client ts cb (rt_next s),
    s\<lparr>rt_threads := (rt_threads s)(rt_next s \<mapsto> new_thread ts cb), rt_next := Suc (rt_next s)\<rparr>)"
  by (simp add: client_start_def client_new_def rt_spawn_def started_client_def new_thread_def)

lemma client_send_serving:
  assumes "serves s c t" and "rt_threads s t = Some th"
  shows "client_send Update c s =
      (Done (Inr ()), c, s\<lparr>rt_threads := (rt_threads s)(t \<mapsto> push_cmd Update th)\<rparr>)"
    and "client_send Shutdown c s =
      (Join t (Inr ()), c\<lparr>cl_thread_handle := None, cl_tx := None\<rparr>,
       s\<lparr>rt_threads := (rt_threads s)(t \<mapsto> push_cmd Shutdown th)\<rparr>)"
    and "client_drop c s = (Join t (), s\<lparr>rt_threads := (rt_threads s)(t \<mapsto> push_cmd Shutdown th)\<rparr>)"
  using assms
  by (auto simp: serves_def live_def client_send_def client_drop_def rt_send_open push_cmd_def)

lemma registered_thread:
  assumes "server_inv s" and "clients s cid = Some c"
  obtains t th where "serves s c t" and "rt_threads s t = Some th" and "live th"
  using assms unfolding server_inv_defs by blast

lemma add_client_fresh:
  assumes "\<not> clients_poisoned s" and "clients s (clients_count s) = None"
  shows "add_client ts cb s = (Done (Inr (clients_count s)),
     s\<lparr>rt_threads := (rt_threads s)(rt_next s \<mapsto> new_thread ts cb), rt_next := Suc (rt_next s),
       clients_count := clients_count s + 1,
       clients := (clients s)(clients_count s \<mapsto> started_client ts cb (rt_next s))\<rparr>)"
  using assms by (simp add: add_client_def client_start_new Let_def)

lemma serves_spawn:
  assumes "threads_ok s" and "serves s c t"
  shows "serves (s\<lparr>rt_threads := (rt_threads s)(rt_next s \<mapsto> th), rt_next := n, clients_count := k, clients := m\<rparr>) c t"
  using assms by (auto simp: serves_def threads_ok_def)

lemma add_client_displacing:
  assumes inv: "server_inv s" and "\<not> clients_poisoned s"
    and old: "clients s (clients_count s) = Some c" "serves s c t" "rt_threads s t = Some th"
  shows "add_client ts cb s = (Join t (Inr (clients_count s)),
     s\<lparr>rt_threads := (rt_threads s)(rt_next s \<mapsto> new_thread ts cb, t \<mapsto> push_cmd Shutdown th),
       rt_next := Suc (rt_next s),
       clients_count := clients_count s + 1,
       clients := (clients s)(clients_count s \<mapsto> started_client ts cb (rt_next s)),
       clients_locked := True\<rparr>)"
proof -
  let ?s = "s\<lparr>rt_threads := (rt_threads s)(rt_next s \<mapsto> new_thread ts cb), rt_next := Suc (rt_next s),
       clients_count := clients_count s + 1,
       clients := (clients s)(clients_count s \<mapsto> started_client ts cb (rt_next s))\<rparr>"
  have tok: "threads_ok s" using inv by (simp add: server_inv_def)
  then have "serves ?s c t" using old(2) by (rule serves_spawn)
  moreover have "rt_threads ?s t = Some th"
    using tok old(3) by (auto simp: threads_ok_def)
  ultimately have "client_drop c ?s =
      (Join t (), ?s\<lparr>rt_threads := (rt_threads ?s)(t \<mapsto> push_cmd Shutdown th)\<rparr>)"
    by (rule client_send_serving(3))
  with assms(2) old(1) show ?thesis
    by (simp add: add_client_def client_start_new Let_def hold_def)
qed

lemma remove_client_absent:
  "\<not> clients_poisoned s \<Longrightarrow> clients s cid = None \<Longrightarrow> remove_client cid s = (Done (Inr ()), s)"
  by (simp add: remove_client_def)

lemma remove_client_registered:
  assumes "\<not> clients_poisoned s" and "clients s cid = Some c" and "serves s c t"
    and "rt_threads s t = Some th"
  shows "remove_client cid s = (Join t (Inr ()),
     s\<lparr>clients := (clients s)(cid := None),
       rt_threads := (rt_threads s)(t \<mapsto> push_cmd Shutdown th), clients_locked := True\<rparr>)"
proof -
  have "serves (s\<lparr>clients := (clients s)(cid := None)\<rparr>) c t"
    using assms(3) by (simp add: serves_def)
  from client_send_serving(2) [OF this] assms(4)
  have "client_send Shutdown c (s\<lparr>clients := (clients s)(cid := None)\<rparr>) =
      (Join t (Inr ()), c\<lparr>cl_thread_handle := None, cl_tx := None\<rparr>,
       s\<lparr>clients := (clients s)(cid := None), rt_threads := (rt_threads s)(t \<mapsto> push_cmd Shutdown th)\<rparr>)"
    by simp
  with assms(1,2) show ?thesis by (simp add: remove_client_def hold_def)
qed

section \<open>Preservation\<close>

lemma threads_ok_push:
  "threads_ok s \<Longrightarrow> rt_threads s t = Some th \<Longrightarrow> rt_threads s' = (rt_threads s)(t \<mapsto> push_cmd cmd th) \<Longrightarrow>
   rt_next s' = rt_next s \<Longrightarrow> threads_ok s'"
  by (auto simp: threads_ok_def split: if_splits)

lemma server_inv_spawn:
  assumes inv: "server_inv s"
  shows "server_inv (s\<lparr>rt_threads := (rt_threads s)(rt_next s \<mapsto> new_thread ts cb), rt_next := Suc (rt_next s),
       clients_count := k, clients := (clients s)(cid \<mapsto> started_client ts cb (rt_next s))\<rparr>)"
    (is "server_inv ?s")
proof -
  have new: "live (new_thread ts cb)" by (simp add: live_def new_thread_def chan_new_def)
  have free: "rt_threads s (rt_next s) = None" using inv by (simp add: server_inv_defs)
  have "serves ?s (started_client ts cb (rt_next s)) (rt_next s)"
    using new by (simp add: serves_def started_client_def new_thread_def)
  moreover have "serves ?s c t" if "serves s c t" for c t
    using serves_spawn [of s c t] inv that by (simp add: server_inv_def)
  ultimately have "all_served ?s"
    using inv unfolding server_inv_def all_served_def by (simp, metis)
  moreover have "cl_tx c \<noteq> Some (rt_next s)" if "clients s i = Some c" for i c
    using inv that free unfolding server_inv_defs by fastforce
  then have "own_threads ?s"
    using inv by (fastforce simp: server_inv_def own_threads_def started_client_def)
  moreover have "threads_ok ?s"
    using inv by (auto simp: server_inv_def threads_ok_def new_thread_def chan_new_def)
  ultimately show ?thesis using inv by (simp add: server_inv_def)
qed

text \<open>A thread that serves no client any more may be told to finish.\<close>

lemma server_inv_push_unregistered:
  assumes inv: "server_inv s" and th: "rt_threads s t = Some th"
    and un: "\<And>i c. clients s i = Some c \<Longrightarrow> cl_tx c \<noteq> Some t"
    and s': "clients s' = clients s" "rt_next s' = rt_next s" "quotes s' = quotes s"
      "rt_threads s' = (rt_threads s)(t \<mapsto> push_cmd cmd th)"
  shows "server_inv s'"
proof -
  have "\<exists>t. serves s' c t" if c: "clients s i = Some c" for i c
  proof -
    obtain u where u: "serves s c u" using inv c unfolding server_inv_def all_served_def by blast
    then have "u \<noteq> t" using un [OF c] by (auto simp: serves_def)
    with u have "serves s' c u" by (simp add: serves_def s')
    then show ?thesis ..
  qed
  moreover have "threads_ok s'"
    using inv th s' by (intro threads_ok_push [of s t th s' cmd]) (simp_all add: server_inv_def)
  ultimately show ?thesis
    using inv s' by (simp add: server_inv_def all_served_def own_threads_def)
qed

lemma server_inv_unregister: "server_inv s \<Longrightarrow> server_inv (s\<lparr>clients := (clients s)(cid := None)\<rparr>)"
  by (auto simp: server_inv_defs split: if_splits)

lemma add_client_inv:
  assumes inv: "server_inv s"
  shows "server_inv (snd (add_client ts cb s))"
proof (cases "clients_poisoned s")
  case True
  with inv show ?thesis by (simp add: add_client_def)
next
  case np: False
  let ?s = "s\<lparr>rt_threads := (rt_threads s)(rt_next s \<mapsto> new_thread ts cb), rt_next := Suc (rt_next s),
       clients_count := clients_count s + 1,
       clients := (clients s)(clients_count s \<mapsto> started_client ts cb (rt_next s))\<rparr>"
  have sp: "server_inv ?s" using inv by (rule server_inv_spawn)
  show ?thesis
  proof (cases "clients s (clients_count s)")
    case None
    with np sp show ?thesis by (simp add: add_client_fresh)
  next
    case (Some c)
    obtain t th where old: "serves s c t" "rt_threads s t = Some th"
      using registered_thread [OF inv Some] by blast
    have tn: "t \<noteq> rt_next s" using inv old(2) by (auto simp: server_inv_defs)
    have un: "cl_tx d \<noteq> Some t" if "clients ?s i = Some d" for i d
    proof (cases "i = clients_count s")
      case True
      with that tn show ?thesis by (auto simp: started_client_def)
    next
      case False
      with that have "clients s i = Some d" by simp
      with inv Some False old(1) show ?thesis
        unfolding server_inv_def own_threads_def serves_def by metis
    qed
    have "rt_threads ?s t = Some th" using old(2) tn by simp
    from server_inv_push_unregistered [OF sp this un] show ?thesis
      by (simp add: add_client_displacing [OF inv np Some old])
  qed
qed

lemma remove_client_inv:
  assumes inv: "server_inv s"
  shows "server_inv (snd (remove_client cid s))"
proof (cases "clients_poisoned s \<or> clients s cid = None")
  case True
  with inv show ?thesis by (auto simp: remove_client_def)
next
  case False
  then obtain c where np: "\<not> clients_poisoned s" and c: "clients s cid = Some c" by auto
  obtain t th where reg: "serves s c t" "rt_threads s t = Some th"
    using registered_thread [OF inv c] by blast
  let ?s = "s\<lparr>clients := (clients s)(cid := None)\<rparr>"
  have sp: "server_inv ?s" using inv by (rule server_inv_unregister)
  have un: "cl_tx d \<noteq> Some t" if "clients ?s i = Some d" for i d
  proof -
    from that have "i \<noteq> cid" and "clients s i = Some d" by (simp_all split: if_splits)
    with inv c reg(1) show ?thesis unfolding server_inv_def own_threads_def serves_def by metis
  qed
  have "rt_threads ?s t = Some th" using reg(2) by simp
  from server_inv_push_unregistered [OF sp this un] show ?thesis
    by (simp add: remove_client_registered [OF np c reg])
qed


lemma thread_step_live:
  "live th \<Longrightarrow> thread_step ser qs p th w = Some (th', w') \<Longrightarrow> live th'"
  by (auto simp: live_def thread_step_def chan_recv_def
      split: thread_pc.splits list.splits option.splits prod.splits received.splits
        client_command.splits if_splits)

lemma thread_step_receiver:
  "(ch_receiver (th_chan th) \<longleftrightarrow> th_pc th \<noteq> Finished) \<Longrightarrow> thread_step ser qs p th w = Some (th', w') \<Longrightarrow>
   (ch_receiver (th_chan th') \<longleftrightarrow> th_pc th' \<noteq> Finished)"
  by (auto simp: thread_step_def thread_finish_def chan_recv_def chan_drop_receiver_def
      split: thread_pc.splits list.splits option.splits prod.splits received.splits
        client_command.splits if_splits)

lemma rt_step_eq:
  "rt_step ser qs p t s = Some s' \<longleftrightarrow>
   (\<exists>th th' w'. rt_threads s t = Some th \<and> thread_step ser qs p th (rt_world s) = Some (th', w') \<and>
      s' = s\<lparr>rt_threads := (rt_threads s)(t \<mapsto> th'), rt_world := w'\<rparr>)"
  by (auto simp: rt_step_def split: option.splits)

lemma rt_step_inv:
  assumes inv: "server_inv s" and st: "rt_step ser qs p t s = Some s'"
  shows "server_inv s'"
proof -
  obtain th th' w' where th: "rt_threads s t = Some th"
    and ts: "thread_step ser qs p th (rt_world s) = Some (th', w')"
    and s': "s' = s\<lparr>rt_threads := (rt_threads s)(t \<mapsto> th'), rt_world := w'\<rparr>"
    using st unfolding rt_step_eq by blast
  have r: "ch_receiver (th_chan th) \<longleftrightarrow> th_pc th \<noteq> Finished"
    using inv th unfolding server_inv_defs by blast
  show ?thesis
  proof (rule server_inv_threads [OF inv])
    fix u th''
    assume u: "rt_threads s' u = Some th''"
    show "\<exists>th. rt_threads s u = Some th \<and> th_tickers th'' = th_tickers th \<and>
        th_callback th'' = th_callback th \<and> (live th \<longrightarrow> live th'') \<and>
        (ch_receiver (th_chan th'') \<longleftrightarrow> th_pc th'' \<noteq> Finished)"
    proof (cases "u = t")
      case True
      with u s' th have "th'' = th'" by simp
      with True th thread_step_frame [OF ts] thread_step_live [OF _ ts] thread_step_receiver [OF r ts]
      show ?thesis by auto
    next
      case False
      with u s' inv show ?thesis by (auto simp: server_inv_defs)
    qed
  qed (use s' th in auto)
qed

lemma notify_step:
  assumes "server_inv s" and "clients s cid = Some c"
  obtains t th where "serves s c t" and "rt_threads s t = Some th"
    and "notify_loop (cid # cids) s =
      notify_loop cids (s\<lparr>rt_threads := (rt_threads s)(t \<mapsto> push_cmd Update th)\<rparr>)"
proof -
  obtain t th where reg: "serves s c t" "rt_threads s t = Some th"
    using registered_thread [OF assms] by blast
  have "s\<lparr>rt_threads := (rt_threads s)(t \<mapsto> push_cmd Update th), clients := (clients s)(cid \<mapsto> c)\<rparr> =
      s\<lparr>rt_threads := (rt_threads s)(t \<mapsto> push_cmd Update th)\<rparr>"
    using assms(2) by (cases s) (auto simp: fun_upd_idem)
  with that [OF reg] assms(2) show thesis
    by (simp add: client_send_serving(1) [OF reg])
qed

lemma push_Update_inv:
  assumes inv: "server_inv s" and "rt_threads s t = Some th"
  shows "server_inv (s\<lparr>rt_threads := (rt_threads s)(t \<mapsto> push_cmd Update th)\<rparr>)"
  by (rule server_inv_threads [OF inv])
    (use assms in \<open>auto simp: server_inv_defs split: if_splits\<close>)

text \<open>The threads of the clients in \<open>S\<close> have one more \<open>Update\<close>; nothing else has changed.\<close>

definition notified :: "u64 set \<Rightarrow> 'w quote_server \<Rightarrow> 'w quote_server" where
  "notified S s = s\<lparr>rt_threads := (\<lambda>t.
     if \<exists>cid \<in> S. \<exists>c. clients s cid = Some c \<and> cl_tx c = Some t
     then map_option (push_cmd Update) (rt_threads s t) else rt_threads s t)\<rparr>"

lemma notify_loop_notified:
  "server_inv s \<Longrightarrow> distinct cids \<Longrightarrow> notify_loop cids s = notified (set cids) s"
proof (induction cids arbitrary: s)
  case Nil
  show ?case by (simp add: notified_def)
next
  case (Cons cid cids)
  show ?case
  proof (cases "clients s cid")
    case None
    with Cons show ?thesis by (simp add: notified_def)
  next
    case (Some c)
    obtain t th where reg: "serves s c t" "rt_threads s t = Some th"
      and st: "notify_loop (cid # cids) s =
        notify_loop cids (s\<lparr>rt_threads := (rt_threads s)(t \<mapsto> push_cmd Update th)\<rparr>)"
      by (rule notify_step [OF Cons.prems(1) Some])
    let ?s = "s\<lparr>rt_threads := (rt_threads s)(t \<mapsto> push_cmd Update th)\<rparr>"
    have "notify_loop cids ?s = notified (set cids) ?s"
      using Cons.prems(2) push_Update_inv [OF Cons.prems(1) reg(2)] by (intro Cons.IH) auto
    moreover have "notified (set cids) ?s = notified (set (cid # cids)) s"
    proof -
      have own: "\<not> (\<exists>i \<in> set cids. \<exists>d. clients s i = Some d \<and> cl_tx d = Some t)"
      proof
        assume "\<exists>i \<in> set cids. \<exists>d. clients s i = Some d \<and> cl_tx d = Some t"
        then obtain i d where i: "i \<in> set cids" "clients s i = Some d" "cl_tx d = Some t" by blast
        then have "i = cid" using Cons.prems(1) Some reg(1)
          unfolding server_inv_def own_threads_def serves_def by metis
        with i(1) Cons.prems(2) show False by simp
      qed
      have tx: "cl_tx c = Some t" using reg(1) by (simp add: serves_def)
      have "(\<lambda>u. if \<exists>i \<in> set cids. \<exists>d. clients s i = Some d \<and> cl_tx d = Some u
            then map_option (push_cmd Update) (((rt_threads s)(t \<mapsto> push_cmd Update th)) u)
            else ((rt_threads s)(t \<mapsto> push_cmd Update th)) u) =
          (\<lambda>u. if \<exists>i \<in> set (cid # cids). \<exists>d. clients s i = Some d \<and> cl_tx d = Some u
            then map_option (push_cmd Update) (rt_threads s u) else rt_threads s u)"
        (is "?l = ?r")
      proof (rule ext)
        fix u
        show "?l u = ?r u" using own tx Some reg(2) by (cases "u = t") auto
      qed
      then show ?thesis by (simp add: notified_def cong: if_cong)
    qed
    ultimately show ?thesis using st by simp
  qed
qed

lemma notified_inv: "server_inv s \<Longrightarrow> server_inv (notified S s)"
  by (rule server_inv_threads)
    (auto simp: notified_def server_inv_defs split: if_splits)

lemma notify_clients_inv:
  "server_inv s \<Longrightarrow> distinct cids \<Longrightarrow> server_inv (snd (notify_clients cids s))"
  by (simp add: notify_clients_def notify_loop_notified notified_inv)

lemma update_attempt_frame:
  "update_attempt ext p e s = (a, s') \<Longrightarrow> s' = s\<lparr>quotes := quotes s'\<rparr>"
  by (auto simp: update_attempt_def Let_def split: if_splits prod.splits)

lemma update_attempt_inv:
  assumes "server_inv s" and "distinct (pass_order p)" and "update_attempt ext p e s = (a, s')"
  shows "server_inv s' \<and> dom (quotes s') = dom (quotes s)"
proof (cases "e < WRITE_TIMEOUT_MS \<and> try_write s")
  case True
  then have "s' = s\<lparr>quotes := snd (update_quotes (x_lognormal ext) (pass_draws p) (pass_order p)
      (generator s) (quotes s))\<rparr>"
    using assms(3) by (auto simp: update_attempt_def Let_def split: prod.splits)
  with assms(1,2) show ?thesis
    by (auto simp: server_inv_defs update_quotes_wf dom_update_quotes)
next
  case False
  with assms show ?thesis by (auto simp: update_attempt_def split: if_splits)
qed

lemma call_resume_inv:
  assumes inv: "server_inv s" and st: "call_resume t s = Some s'"
  shows "server_inv s'"
proof (cases "rt_threads s t")
  case None
  with assms server_inv_cong [of s' s] show ?thesis
    by (auto simp: call_resume_def client_joined_def rt_drop_sender_def split: if_splits)
next
  case (Some th)
  with st have fin: "th_pc th = Finished"
    and s': "s' = s\<lparr>rt_threads := (rt_threads s)(t \<mapsto> th\<lparr>th_chan := (th_chan th)\<lparr>ch_sender := False\<rparr>\<rparr>),
      clients_locked := False\<rparr>"
    by (auto simp: call_resume_def client_joined_def rt_drop_sender_def rt_finished_def split: if_splits)
  show ?thesis
    by (rule server_inv_threads [OF inv])
      (use inv Some fin s' in \<open>auto simp: server_inv_defs live_def split: if_splits\<close>)
qed

lemma bg_step_inv:
  assumes inv: "server_inv s" and ord: "distinct (pass_order p)" "distinct cids"
    and st: "bg_step ext p cids clock t s = Some s'"
  shows "server_inv s'"
proof -
  have goto: "server_inv u \<Longrightarrow> server_inv (u\<lparr>bg_threads := m\<rparr>)" for u :: "'w quote_server" and m
    by (subst server_inv_cong) simp_all
  show ?thesis
    using st inv update_attempt_inv [OF inv ord(1)] notify_clients_inv [OF inv ord(2)]
    by (auto simp: bg_step_def Let_def intro!: goto
        split: option.splits bg_pc.splits if_splits prod.splits attempt.splits)
qed

lemma server_start_inv: "server_inv s \<Longrightarrow> server_inv (snd (server_start s))"
  by (subst server_inv_cong [of _ s]) (simp_all add: server_start_def)

lemma server_shutdown_inv: "server_inv s \<Longrightarrow> server_inv (snd (server_shutdown s))"
  by (subst server_inv_cong [of _ s]) (simp_all add: server_shutdown_def Let_def split: option.splits)


lemma initial_server_inv: "quotes_wf m \<Longrightarrow> server_inv (initial_server m g w)"
  by (simp add: initial_server_def server_inv_defs)


section \<open>The registry of clients\<close>

text \<open>
  What the connection handlers rely on: a map from ids to subscriptions, in which adding
  stores the subscription under the next key and removing deletes it. \<open>Counted\<close> registries
  also say which key is next. The sequence of operations a client of the interface performs
  then computes exactly the abstract map.
\<close>

datatype ('k, 'v) registry_op = AddOp 'v | RemoveOp 'k

fun exec_op :: "('v \<Rightarrow> 's \<Rightarrow> 's) \<Rightarrow> ('k \<Rightarrow> 's \<Rightarrow> 's) \<Rightarrow> ('k, 'v) registry_op \<Rightarrow> 's \<Rightarrow> 's" where
  "exec_op add remove (AddOp v) s = add v s"
| "exec_op add remove (RemoveOp k) s = remove k s"

fun spec_op :: "('k \<Rightarrow> 'k) \<Rightarrow> ('k, 'v) registry_op \<Rightarrow> ('k \<rightharpoonup> 'v) \<times> 'k \<Rightarrow> ('k \<rightharpoonup> 'v) \<times> 'k" where
  "spec_op succ_key (AddOp v) (m, k) = (m(k \<mapsto> v), succ_key k)"
| "spec_op succ_key (RemoveOp j) (m, k) = (m(j := None), k)"

locale registry =
  fixes ok :: "'s \<Rightarrow> bool"
    and subs :: "'s \<Rightarrow> ('k \<rightharpoonup> 'v)"
    and next_key :: "'s \<Rightarrow> 'k"
    and add :: "'v \<Rightarrow> 's \<Rightarrow> 's"
    and remove :: "'k \<Rightarrow> 's \<Rightarrow> 's"
  assumes ok_add: "ok s \<Longrightarrow> ok (add v s)"
    and ok_remove: "ok s \<Longrightarrow> ok (remove k s)"
    and subs_add: "ok s \<Longrightarrow> subs (add v s) = (subs s)(next_key s \<mapsto> v)"
    and subs_remove: "ok s \<Longrightarrow> subs (remove k s) = (subs s)(k := None)"
begin

lemma add_remove:
  "ok s \<Longrightarrow> subs s (next_key s) = None \<Longrightarrow> subs (remove (next_key s) (add v s)) = subs s"
  by (simp add: subs_remove ok_add subs_add fun_upd_idem)

lemma remove_other: "ok s \<Longrightarrow> k \<noteq> j \<Longrightarrow> subs (remove k s) j = subs s j"
  by (simp add: subs_remove)

lemma remove_twice: "ok s \<Longrightarrow> subs (remove k (remove k s)) = subs (remove k s)"
  by (simp add: subs_remove ok_remove)

end

locale counted_registry = registry ok subs next_key add remove
  for ok :: "'s \<Rightarrow> bool"
    and subs :: "'s \<Rightarrow> ('k \<rightharpoonup> 'v)"
    and next_key :: "'s \<Rightarrow> 'k"
    and add :: "'v \<Rightarrow> 's \<Rightarrow> 's"
    and remove :: "'k \<Rightarrow> 's \<Rightarrow> 's" +
  fixes succ_key :: "'k \<Rightarrow> 'k"
  assumes next_add: "ok s \<Longrightarrow> next_key (add v s) = succ_key (next_key s)"
    and next_remove: "ok s \<Longrightarrow> next_key (remove k s) = next_key s"
begin

lemma exec_ok: "ok s \<Longrightarrow> ok (exec_op add remove op s)"
  by (cases op) (simp_all add: ok_add ok_remove)

lemma exec_refines: "ok s \<Longrightarrow> (subs (exec_op add remove op s), next_key (exec_op add remove op s)) = spec_op succ_key op (subs s, next_key s)"
  by (cases op) (simp_all add: subs_add subs_remove next_add next_remove)

lemma run_refines:
  "ok s \<Longrightarrow> (subs (fold (exec_op add remove) ops s), next_key (fold (exec_op add remove) ops s)) = fold (spec_op succ_key) ops (subs s, next_key s)"
proof (induction ops arbitrary: s)
  case (Cons op ops)
  then show ?case using Cons.IH [OF exec_ok [OF Cons.prems]] exec_refines [OF Cons.prems] by simp
qed simp

end

type_synonym 'w subscription = "string list \<times> 'w callback"

definition subscriptions :: "'w quote_server \<Rightarrow> (u64 \<rightharpoonup> 'w subscription)" where
  "subscriptions s cid = map_option (\<lambda>c. (cl_tickers c, cl_callback c)) (clients s cid)"

definition serving :: "'w quote_server \<Rightarrow> bool" where
  "serving s \<longleftrightarrow> server_inv s \<and> \<not> clients_poisoned s"

definition add_sub :: "'w subscription \<Rightarrow> 'w quote_server \<Rightarrow> 'w quote_server" where
  "add_sub v s = snd (add_client (fst v) (snd v) s)"

definition remove_sub :: "u64 \<Rightarrow> 'w quote_server \<Rightarrow> 'w quote_server" where
  "remove_sub cid s = snd (remove_client cid s)"

lemma add_client_fields:
  assumes "serving s"
  shows "clients (snd (add_client ts cb s)) =
           (clients s)(clients_count s \<mapsto> started_client ts cb (rt_next s)) \<and>
         clients_count (snd (add_client ts cb s)) = clients_count s + 1 \<and>
         clients_poisoned (snd (add_client ts cb s)) = False \<and>
         quotes (snd (add_client ts cb s)) = quotes s"
proof (cases "clients s (clients_count s)")
  case None
  with assms show ?thesis by (simp add: serving_def add_client_fresh)
next
  case (Some c)
  have inv: "server_inv s" and np: "\<not> clients_poisoned s" using assms by (simp_all add: serving_def)
  obtain t th where "serves s c t" "rt_threads s t = Some th"
    using registered_thread [OF inv Some] by blast
  from add_client_displacing [OF inv np Some this] np show ?thesis by simp
qed

lemma remove_client_fields:
  assumes "serving s"
  shows "clients (snd (remove_client cid s)) = (clients s)(cid := None) \<and>
         clients_count (snd (remove_client cid s)) = clients_count s \<and>
         clients_poisoned (snd (remove_client cid s)) = False \<and>
         quotes (snd (remove_client cid s)) = quotes s"
proof (cases "clients s cid")
  case None
  with assms show ?thesis by (auto simp: serving_def remove_client_absent fun_upd_idem)
next
  case (Some c)
  have inv: "server_inv s" and np: "\<not> clients_poisoned s" using assms by (simp_all add: serving_def)
  obtain t th where "serves s c t" "rt_threads s t = Some th"
    using registered_thread [OF inv Some] by blast
  from remove_client_registered [OF np Some this] np show ?thesis by simp
qed

interpretation clients_registry:
  counted_registry serving subscriptions clients_count add_sub remove_sub "\<lambda>k. k + 1"
proof unfold_locales
  fix s :: "'w quote_server" and v :: "'w subscription" and cid :: u64
  assume ok: "serving s"
  have inv: "server_inv s" using ok by (simp add: serving_def)
  show "serving (add_sub v s)"
    using add_client_inv [OF inv, of "fst v" "snd v"] add_client_fields [OF ok]
    unfolding add_sub_def serving_def by blast
  show "serving (remove_sub cid s)"
    using remove_client_inv [OF inv, of cid] remove_client_fields [OF ok, of cid]
    unfolding remove_sub_def serving_def by blast
  show "subscriptions (add_sub v s) = (subscriptions s)(clients_count s \<mapsto> v)"
    using add_client_fields [OF ok, of "fst v" "snd v"]
    by (auto simp: subscriptions_def add_sub_def started_client_def fun_eq_iff)
  show "subscriptions (remove_sub cid s) = (subscriptions s)(cid := None)"
    using remove_client_fields [OF ok, of cid]
    by (auto simp: subscriptions_def remove_sub_def fun_eq_iff)
  show "clients_count (add_sub v s) = clients_count s + 1"
    using add_client_fields [OF ok] by (simp add: add_sub_def)
  show "clients_count (remove_sub cid s) = clients_count s"
    using remove_client_fields [OF ok, of cid] by (simp add: remove_sub_def)
qed


section \<open>Properties\<close>

lemma volatility_ok: "generator_new VOLATILITY = Inr \<lparr>volatility = VOLATILITY\<rparr>"
  using generator_new_fraction [of 82 6] by (simp add: VOLATILITY_def)

lemma load_tickers_ok:
  "load_tickers tbl rnd clk ls m n = Inr (m', n') \<Longrightarrow>
   list_all is_ok ls \<and>
   dom m' = dom m \<union> {t. t \<noteq> [] \<and> (\<exists>l. Inr l \<in> set ls \<and> t = to_uppercase tbl (trim l))} \<and>
   (quotes_wf m \<longrightarrow> quotes_wf m')"
proof (induction tbl rnd clk ls m n rule: load_tickers.induct)
  case (3 tbl rnd clk l ls m n)
  let ?t = "to_uppercase tbl (trim l)"
  show ?case
  proof (cases "?t = []")
    case True
    with 3 show ?thesis by (auto simp: Let_def)
  next
    case False
    have "quotes_wf m \<Longrightarrow> quotes_wf (m(?t \<mapsto> new_quote (rnd n) (clk n) ?t))"
      by (auto simp: quotes_wf_def new_quote_def)
    with False 3 show ?thesis by (auto simp: Let_def simp del: fun_upd_apply)
  qed
qed auto

lemma load_tickers_error:
  "load_tickers tbl rnd clk ls m n = Inl e \<Longrightarrow>
   \<exists>pre err post. ls = pre @ Inl err # post \<and> list_all is_ok pre \<and> e = InvalidConfig (io_message err)"
proof (induction tbl rnd clk ls m n rule: load_tickers.induct)
  case (2 tbl rnd clk err ls m n)
  then show ?case by (intro exI [of _ "[]"]) simp
next
  case (3 tbl rnd clk l ls m n)
  then obtain pre err post where "ls = pre @ Inl err # post" "list_all is_ok pre"
      "e = InvalidConfig (io_message err)"
    by (auto simp: Let_def simp del: fun_upd_apply split: if_splits)
  then show ?case by (intro exI [of _ "Inr l # pre"]) simp
qed simp

text \<open>
  C23: loading a configuration that opens. It succeeds exactly when every line can be read;
  then the quotes are keyed by the non-empty trimmed upper-cased lines, each stored under its
  own ticker, and the server starts with no client, no thread and the shutdown flag clear.
  Otherwise the error carries the message of the first line that cannot be read.
\<close>

theorem from_config_loads:
  "case from_config tbl rnd clk w (Inr f) of
     Inr s \<Rightarrow> list_all is_ok (file_lines f) \<and>
       dom (quotes s) = {t. t \<noteq> [] \<and> (\<exists>l. Inr l \<in> set (file_lines f) \<and> t = to_uppercase tbl (trim l))} \<and>
       quotes_wf (quotes s) \<and> s = initial_server (quotes s) \<lparr>volatility = VOLATILITY\<rparr> w
   | Inl e \<Rightarrow> (\<exists>pre err post. file_lines f = pre @ Inl err # post \<and> list_all is_ok pre \<and>
       e = InvalidConfig (io_message err))"
proof (cases "load_tickers tbl rnd clk (file_lines f) Map.empty 0")
  case (Inl e)
  with load_tickers_error [OF this] show ?thesis by (simp add: from_config_def)
next
  case (Inr r)
  then obtain m n where r: "load_tickers tbl rnd clk (file_lines f) Map.empty 0 = Inr (m, n)"
    by (cases r) auto
  with load_tickers_ok [OF r] show ?thesis
    by (simp add: from_config_def volatility_ok quotes_wf_def) (simp add: initial_server_def)
qed

definition example_server :: "string list quote_server" where
  "example_server = initial_server [''A'' \<mapsto> example_quote ''A''] \<lparr>volatility = VOLATILITY\<rparr> []"

lemma example_server_serving: "serving example_server"
  by (simp add: example_server_def serving_def initial_server_inv quotes_wf_def example_quote_def)
    (simp add: initial_server_def)

definition example_subscribed :: "string list quote_server" where
  "example_subscribed = snd (add_client [''A''] log_callback example_server)"

lemma example_subscribed_serving: "serving example_subscribed"
  using clients_registry.ok_add [OF example_server_serving, of "([''A''], log_callback)"]
  by (simp add: example_subscribed_def add_sub_def)

lemma example_subscribed_eq:
  "example_subscribed = example_server\<lparr>rt_threads := [0 \<mapsto> new_thread [''A''] log_callback],
     rt_next := 1, clients_count := 1, clients := [0 \<mapsto> started_client [''A''] log_callback 0]\<rparr>"
  unfolding example_subscribed_def
  by (subst add_client_fresh) (simp_all add: example_server_def initial_server_def)

text \<open>
  C24: the order in which the map of clients is iterated does not matter to a notification
  round: in every order each registered client's thread gets exactly one \<open>Update\<close> at the end
  of its channel, no other thread gets anything, and no send fails.
\<close>

theorem notify_clients_any_order:
  assumes "server_inv s" and "\<not> clients_poisoned s" and "distinct cids" and "set cids = dom (clients s)"
  shows "notify_clients cids s = (Inr (), s\<lparr>rt_threads := (\<lambda>t.
     if \<exists>cid c. clients s cid = Some c \<and> cl_tx c = Some t
     then map_option (push_cmd Update) (rt_threads s t) else rt_threads s t)\<rparr>)"
proof -
  have "(\<exists>cid \<in> dom (clients s). \<exists>c. clients s cid = Some c \<and> cl_tx c = Some t) \<longleftrightarrow>
      (\<exists>cid c. clients s cid = Some c \<and> cl_tx c = Some t)" for t by auto
  then show ?thesis
    using assms by (simp add: notify_clients_def notify_loop_notified notified_def)
qed

theorem notify_clients_any_order_witness:
  "map_option (\<lambda>th. ch_queue (th_chan th)) (rt_threads (snd (notify_clients [0] example_subscribed)) 0) =
   Some [Update]"
proof -
  have "server_inv example_subscribed" and "\<not> clients_poisoned example_subscribed"
    using example_subscribed_serving by (simp_all add: serving_def)
  from notify_clients_any_order [OF this, of "[0]"] show ?thesis
    by (auto simp: example_subscribed_eq started_client_def new_thread_def chan_new_def split: if_splits)
qed


text \<open>
  C11: the registry of clients refines the abstract one: after any sequence of additions and
  removals the subscriptions and the counter are those of a map in which an addition stores
  under the counter and increments it and a removal deletes, also when a removal is of an
  unknown id and when the 64-bit counter wraps.
\<close>

theorem registry_refinement:
  assumes "serving s"
  shows "(subscriptions (fold (exec_op add_sub remove_sub) ops s),
          clients_count (fold (exec_op add_sub remove_sub) ops s)) =
         fold (spec_op (\<lambda>k. k + 1)) ops (subscriptions s, clients_count s)"
  using assms by (rule clients_registry.run_refines)

theorem registry_refinement_witness:
  "subscriptions (fold (exec_op add_sub remove_sub)
     [AddOp ([''A''], log_callback), AddOp ([''B''], log_callback), RemoveOp 0] example_server) =
   [1 \<mapsto> ([''B''], log_callback)]"
  using registry_refinement [OF example_server_serving,
      of "[AddOp ([''A''], log_callback), AddOp ([''B''], log_callback), RemoveOp 0]"]
  by (auto simp: example_server_def initial_server_def subscriptions_def fun_eq_iff)


text \<open>
  Removing a registered client unregisters it at once, appends \<open>Shutdown\<close> to the channel
  of its thread and waits, holding the clients mutex, for that thread; when the thread has
  finished the call succeeds and the mutex is free. Removing an unknown id succeeds and
  changes nothing.
\<close>

lemma remove_client_protocol:
  assumes "server_inv s" and "\<not> clients_poisoned s"
  shows "case clients s cid of
     None \<Rightarrow> remove_client cid s = (Done (Inr ()), s)
   | Some c \<Rightarrow> \<exists>t th s'. cl_tx c = Some t \<and> rt_threads s t = Some th \<and>
       remove_client cid s = (Join t (Inr ()), s') \<and> clients s' = (clients s)(cid := None) \<and>
       rt_threads s' = (rt_threads s)(t \<mapsto> push_cmd Shutdown th) \<and> clients_locked s' \<and>
       call_resume t s' = None \<and>
       (\<forall>s''. rt_finished t s'' \<longrightarrow> (\<exists>s3. call_resume t s'' = Some s3 \<and> \<not> clients_locked s3))"
proof (cases "clients s cid")
  case None
  with assms show ?thesis by (simp add: remove_client_absent)
next
  case (Some c)
  obtain t th where reg: "serves s c t" "rt_threads s t = Some th" "live th"
    using registered_thread [OF assms(1) Some] by blast
  with Some remove_client_registered [OF assms(2) Some reg(1,2)] show ?thesis
    by (auto simp: serves_def call_resume_def rt_finished_def live_def)
qed

lemma remove_client_protocol_witness:
  "\<exists>s'. remove_client 0 example_subscribed = (Join 0 (Inr ()), s')"
proof -
  have "server_inv example_subscribed" and "\<not> clients_poisoned example_subscribed"
    using example_subscribed_serving by (simp_all add: serving_def)
  from remove_client_protocol [OF this, of 0] show ?thesis
    by (auto simp: example_subscribed_eq started_client_def)
qed


lemma update_attempt_retry: "fst (update_attempt ext p e s) = Retry \<Longrightarrow> e < WRITE_TIMEOUT_MS"
  by (auto simp: update_attempt_def split: if_splits)

lemma update_loop_None:
  "update_loop ext p obs = None \<Longrightarrow> i < length obs \<Longrightarrow> fst (obs ! i) < WRITE_TIMEOUT_MS"
proof (induction ext p obs arbitrary: i rule: update_loop.induct)
  case (2 ext p e s obs)
  obtain a s' where a: "update_attempt ext p e s = (a, s')" by fastforce
  with "2.prems"(1) have r: "a = Retry" "update_loop ext p obs = None"
    by (auto split: attempt.splits)
  show ?case
  proof (cases i)
    case 0
    with a r update_attempt_retry [of ext p e s] show ?thesis by simp
  next
    case (Suc j)
    with 2 a r show ?thesis by simp
  qed
qed simp



end
