(* ===== verification/Rust_Net.thy ===== *)
theory Rust_Net
  imports Rust_Text
begin

text \<open>
  \<^verbatim>\<open>FromStr\<close> of \<^verbatim>\<open>std::net::SocketAddr\<close>: the recursive-descent parser of the standard
  library. A parser takes the remaining input and returns a value with the rest, or
  nothing, in which case the input counts as not consumed.
\<close>

datatype socket_addr =
    SocketV4 u8 u8 u8 u8 u16
  | SocketV6 "u16 list" u16 u32

type_synonym 'a parser = "string \<Rightarrow> ('a \<times> string) option"

definition digit_of :: "char \<Rightarrow> nat option" where
  "digit_of c =
     (if 48 \<le> byte_of c \<and> byte_of c \<le> 57 then Some (byte_of c - 48)
      else if 97 \<le> byte_of c \<and> byte_of c \<le> 102 then Some (byte_of c - 87)
      else if 65 \<le> byte_of c \<and> byte_of c \<le> 70 then Some (byte_of c - 55) else None)"

definition is_radix_digit :: "nat \<Rightarrow> char \<Rightarrow> bool" where
  "is_radix_digit radix c = (case digit_of c of None \<Rightarrow> False | Some d \<Rightarrow> d < radix)"

definition radix_val :: "nat \<Rightarrow> string \<Rightarrow> nat" where
  "radix_val radix s = foldl (\<lambda>n c. radix * n + (case digit_of c of None \<Rightarrow> 0 | Some d \<Rightarrow> d)) 0 s"

text \<open>\<open>read_number radix max_digits allow_zero_prefix\<close> of a type with \<open>bound\<close> values.\<close>

definition read_number :: "nat \<Rightarrow> nat option \<Rightarrow> bool \<Rightarrow> nat \<Rightarrow> nat parser" where
  "read_number radix max_digits allow_zero_prefix bound s =
     (let ds = takeWhile (is_radix_digit radix) s;
          n = radix_val radix ds;
          too_long = (case max_digits of None \<Rightarrow> False | Some m \<Rightarrow> m < length ds)
      in if too_long \<or> ds = [] \<or> \<not> allow_zero_prefix \<and> hd ds = CHR ''0'' \<and> 1 < length ds \<or> bound \<le> n
         then None else Some (n, dropWhile (is_radix_digit radix) s))"

definition read_given_char :: "char \<Rightarrow> unit parser" where
  "read_given_char c s = (case s of [] \<Rightarrow> None | x # xs \<Rightarrow> if x = c then Some ((), xs) else None)"

definition read_separator :: "char \<Rightarrow> nat \<Rightarrow> 'a parser \<Rightarrow> 'a parser" where
  "read_separator sep index p s =
     (if 0 < index then (case read_given_char sep s of None \<Rightarrow> None | Some (_, r) \<Rightarrow> p r) else p s)"

text \<open>The four octets, the loop written out.\<close>

definition read_octet :: "nat \<Rightarrow> nat parser" where
  "read_octet i = read_separator CHR ''.'' i (read_number 10 (Some 3) False 256)"

definition read_ipv4_addr :: "(nat \<times> nat \<times> nat \<times> nat) parser" where
  "read_ipv4_addr s =
     (case read_octet 0 s of None \<Rightarrow> None | Some (a, s) \<Rightarrow>
      case read_octet 1 s of None \<Rightarrow> None | Some (b, s) \<Rightarrow>
      case read_octet 2 s of None \<Rightarrow> None | Some (c, s) \<Rightarrow>
      case read_octet 3 s of None \<Rightarrow> None | Some (d, s) \<Rightarrow> Some ((a, b, c, d), s))"

definition read_port :: "nat parser" where
  "read_port s = (case read_given_char CHR '':'' s of
     None \<Rightarrow> None | Some (_, r) \<Rightarrow> read_number 10 None True (2 ^ 16) r)"

text \<open>At most \<open>n\<close> more groups, the next being number \<open>i\<close>; and whether an IPv4 tail ended them.\<close>

fun read_groups :: "nat \<Rightarrow> nat \<Rightarrow> string \<Rightarrow> nat list \<times> bool \<times> string" where
  "read_groups 0 i s = ([], False, s)"
| "read_groups (Suc n) i s =
     (case (if 0 < n then read_separator CHR '':'' i read_ipv4_addr s else None) of
        Some ((a, b, c, d), r) \<Rightarrow> ([256 * a + b, 256 * c + d], True, r)
      | None \<Rightarrow>
         (case read_separator CHR '':'' i (read_number 16 (Some 4) True (2 ^ 16)) s of
            Some (g, r) \<Rightarrow> (let (gs, v4, r') = read_groups n (Suc i) r in (g # gs, v4, r'))
          | None \<Rightarrow> ([], False, s)))"

definition read_ipv6_addr :: "nat list parser" where
  "read_ipv6_addr s =
     (case read_groups 8 0 s of (head, head_ipv4, r) \<Rightarrow>
        if length head = 8 then Some (head, r)
        else if head_ipv4 then None
        else if \<not> starts_with r ''::'' then None
        else (case read_groups (8 - (length head + 1)) 0 (drop 2 r) of (tail, _, r') \<Rightarrow>
          Some (head @ replicate (8 - length head - length tail) 0 @ tail, r')))"

definition read_scope_id :: "nat parser" where
  "read_scope_id s = (case read_given_char CHR ''%'' s of
     None \<Rightarrow> None | Some (_, r) \<Rightarrow> read_number 10 None True (2 ^ 32) r)"

definition read_socket_addr_v4 :: "socket_addr parser" where
  "read_socket_addr_v4 s = (case read_ipv4_addr s of
     None \<Rightarrow> None | Some ((a, b, c, d), r) \<Rightarrow> (case read_port r of
     None \<Rightarrow> None | Some (p, r) \<Rightarrow>
       Some (SocketV4 (of_nat a) (of_nat b) (of_nat c) (of_nat d) (of_nat p), r)))"

definition read_socket_addr_v6 :: "socket_addr parser" where
  "read_socket_addr_v6 s = (case read_given_char CHR ''['' s of
     None \<Rightarrow> None | Some (_, r) \<Rightarrow> (case read_ipv6_addr r of
     None \<Rightarrow> None | Some (ip, r) \<Rightarrow>
       (case (case read_scope_id r of None \<Rightarrow> (0, r) | Some (n, r') \<Rightarrow> (n, r')) of (scope, r) \<Rightarrow>
         (case read_given_char CHR '']'' r of
            None \<Rightarrow> None | Some (_, r) \<Rightarrow> (case read_port r of
            None \<Rightarrow> None | Some (p, r) \<Rightarrow>
              Some (SocketV6 (map of_nat ip) (of_nat p) (of_nat scope), r))))))"

definition parse_socket_addr :: "string \<Rightarrow> socket_addr option" where
  "parse_socket_addr s =
     (case (case read_socket_addr_v4 s of Some r \<Rightarrow> Some r | None \<Rightarrow> read_socket_addr_v6 s) of
        Some (a, []) \<Rightarrow> Some a
      | _ \<Rightarrow> None)"

text \<open>\<^verbatim>\<open>Display\<close> of an IPv4 socket address, and its inverse.\<close>

definition show_v4 :: "u8 \<Rightarrow> u8 \<Rightarrow> u8 \<Rightarrow> u8 \<Rightarrow> u16 \<Rightarrow> string" where
  "show_v4 a b c d p =
     show_nat (unat a) @ CHR ''.'' # show_nat (unat b) @ CHR ''.'' # show_nat (unat c) @ CHR ''.'' #
     show_nat (unat d) @ CHR '':'' # show_nat (unat p)"

lemma digit_of_digit: "is_digit c \<Longrightarrow> digit_of c = Some (digit_val c)"
  by (simp add: is_digit_def digit_of_def digit_val_def)

lemma radix_digit_10: "is_radix_digit 10 c = is_digit c"
  by (auto simp: is_radix_digit_def digit_of_def is_digit_def)

lemma radix_val_10: "list_all is_digit s \<Longrightarrow> radix_val 10 s = digits_val s"
  by (induction s rule: rev_induct) (simp_all add: radix_val_def digits_val_def digit_of_digit)

lemma show_nat_first:
  "1 < length (show_nat n) \<Longrightarrow> hd (show_nat n) \<noteq> CHR ''0''"
proof (induction n rule: show_nat.induct)
  case (1 n)
  have "\<not> n < 10" using "1.prems" by (auto simp: show_nat.simps [of n])
  show ?case
  proof (cases "n div 10 < 10")
    case True
    with \<open>\<not> n < 10\<close> have "1 \<le> n div 10" by linarith
    with True have "byte_of (digit_char (n div 10)) \<noteq> byte_of (CHR ''0'')"
      by (simp add: digit_char_def byte_of_char_of) (simp add: byte_of_def)
    moreover have "hd (show_nat n) = digit_char (n div 10)"
      using \<open>\<not> n < 10\<close> True by (simp add: show_nat.simps [of n] show_nat.simps [of "n div 10"])
    ultimately show ?thesis by auto
  next
    case False
    then have "1 < length (show_nat (n div 10))"
      by (simp add: show_nat.simps [of "n div 10"])
    with 1 \<open>\<not> n < 10\<close> show ?thesis by (simp add: show_nat.simps [of n])
  qed
qed

lemma length_show_nat: "n < 10 ^ k \<Longrightarrow> 0 < k \<Longrightarrow> length (show_nat n) \<le> k"
proof (induction n arbitrary: k rule: show_nat.induct)
  case (1 n)
  show ?case
  proof (cases "n < 10")
    case True
    with 1 show ?thesis by (simp add: show_nat.simps [of n])
  next
    case False
    then obtain j where j: "k = Suc j" "0 < j"
      using "1.prems" by (cases k; cases "k - 1") auto
    then have "n div 10 < 10 ^ j" using "1.prems" by (simp add: div_less_iff_less_mult mult.commute)
    with 1 False j show ?thesis by (simp add: show_nat.simps [of n])
  qed
qed

text \<open>Reading back a printed number that is followed by something else than a digit.\<close>

lemma read_number_show:
  assumes "n < bound" and "r = [] \<or> \<not> is_digit (hd r)"
    and "case m of None \<Rightarrow> True | Some k \<Rightarrow> length (show_nat n) \<le> k"
  shows "read_number 10 m z bound (show_nat n @ r) = Some (n, r)"
proof -
  have d: "\<forall>c \<in> set (show_nat n). is_radix_digit 10 c"
    using show_nat_digits [of n] by (simp add: radix_digit_10 list_all_iff)
  have t: "takeWhile (is_radix_digit 10) (show_nat n @ r) = show_nat n"
    and dr: "dropWhile (is_radix_digit 10) (show_nat n @ r) = r"
    using assms(2) d by (cases r; simp add: radix_digit_10 takeWhile_append_stop dropWhile_append_stop
        takeWhile_all dropWhile_all)+
  have "\<not> (hd (show_nat n) = CHR ''0'' \<and> 1 < length (show_nat n))" using show_nat_first by blast
  with assms t dr show ?thesis
    by (auto simp: read_number_def Let_def radix_val_10 show_nat_digits split: option.splits)
qed

lemma read_octet_show:
  fixes a :: u8
  assumes "r = [] \<or> \<not> is_digit (hd r)"
  shows "read_octet 0 (show_nat (unat a) @ r) = Some (unat a, r)"
    and "0 < i \<Longrightarrow> read_octet i (CHR ''.'' # show_nat (unat a) @ r) = Some (unat a, r)"
proof -
  have "unat a < 256" using unsigned_less [of a] by simp
  moreover then have "length (show_nat (unat a)) \<le> 3" by (intro length_show_nat) simp_all
  ultimately show "read_octet 0 (show_nat (unat a) @ r) = Some (unat a, r)"
    and "0 < i \<Longrightarrow> read_octet i (CHR ''.'' # show_nat (unat a) @ r) = Some (unat a, r)"
    using read_number_show [of "unat a" 256 r "Some 3"] assms
    by (simp_all add: read_octet_def read_separator_def read_given_char_def)
qed

lemma parse_show_v4: "parse_socket_addr (show_v4 a b c d p) = Some (SocketV4 a b c d p)"
proof -
  have p: "unat p < 2 ^ 16" using unsigned_less [of p] by simp
  have "read_ipv4_addr (show_v4 a b c d p) =
      Some ((unat a, unat b, unat c, unat d), CHR '':'' # show_nat (unat p))"
    by (simp add: read_ipv4_addr_def show_v4_def read_octet_show)
  moreover have "read_port (CHR '':'' # show_nat (unat p)) = Some (unat p, [])"
    using read_number_show [OF p, of "[]" None True] by (simp add: read_port_def read_given_char_def)
  ultimately show ?thesis by (simp add: parse_socket_addr_def read_socket_addr_v4_def)
qed

end
