(* ===== verification/Tcp_Server.thy ===== *)
theory Tcp_Server
  imports Quote_Server Rust_Net
begin

text \<open>
  \<^verbatim>\<open>src/tcp_server.rs\<close>: the listener and the handler of one connection. The outside world
  of the callbacks is the list of datagrams handed to \<^verbatim>\<open>UdpSocket::send_to\<close>, in order. A
  handler reads a line, acts, writes a reply and reads again; where it removes a client it
  may wait for a join, and the rest of that round is the continuation \<open>after\<close>. Results of
  socket calls and the clock are arguments (\<open>conn_io\<close>).
\<close>

type_synonym datagrams = "(socket_addr \<times> string) list"

type_synonym server = "datagrams quote_server"

section \<open>State\<close>

text \<open>What a round that waits for a join does when the call returns.\<close>

datatype after =
    AfterStream "quote_server_error + u64"
  | AfterStop "quote_server_error + unit"
  | AfterTimeout "quote_server_error + unit"
  | AfterFailure io_error "quote_server_error + unit"

datatype conn_pc =
    Reading
  | Napping nat
  | Joining nat after
  | Closed "tcp_server_error + unit"

record connection =
  co_client_id :: "u64 option"
  co_last_ping :: nat
  co_buf :: string
  co_written :: string
  co_pc :: conn_pc

text \<open>
  The environment of one round: the instant, the result of \<^verbatim>\<open>write_all\<close> with the number of
  bytes written before a failure, and the result of binding the UDP socket.
\<close>

record conn_io =
  io_now :: nat
  io_write :: "io_error + unit"
  io_partial :: nat
  io_bind :: "io_error + unit"


section \<open>The listener\<close>

definition tcp_bind :: "io_error + unit \<Rightarrow> tcp_server_error + unit" where
  "tcp_bind r = map_err (\<lambda>e. BindError (io_message e)) r"

text \<open>One round of the accept loop: \<open>Inr\<close> the new handler goes on, \<open>Inl\<close> the loop returns.\<close>

definition open_connection ::
    "nat \<Rightarrow> io_error + unit \<Rightarrow> io_error + unit \<Rightarrow> connection" where
  "open_connection clock clone_res timeout_res =
     \<lparr>co_client_id = None, co_last_ping = clock, co_buf = [], co_written = [],
      co_pc = (case clone_res of
          Inl e \<Rightarrow> Closed (Inl (ClientIoError (io_message e)))
        | Inr _ \<Rightarrow> (case timeout_res of
            Inl e \<Rightarrow> Closed (Inl (ClientIoError (io_message e)))
          | Inr _ \<Rightarrow> Reading))\<rparr>"

definition accept_round ::
    "nat \<Rightarrow> io_error + (io_error + unit) \<times> (io_error + unit) \<Rightarrow> tcp_server_error + connection" where
  "accept_round clock r = (case r of
     Inl e \<Rightarrow> Inl (AcceptError (io_message e))
   | Inr (clone_res, timeout_res) \<Rightarrow> Inr (open_connection clock clone_res timeout_res))"


section \<open>The handlers\<close>

definition write_all :: "conn_io \<Rightarrow> string \<Rightarrow> connection \<Rightarrow> (tcp_server_error + unit) \<times> connection" where
  "write_all io bs co = (case io_write io of
     Inr _ \<Rightarrow> (Inr (), co\<lparr>co_written := co_written co @ bs\<rparr>)
   | Inl e \<Rightarrow> (Inl (ClientIoError (io_message e)),
               co\<lparr>co_written := co_written co @ take (io_partial io) bs\<rparr>))"

text \<open>The operator \<^verbatim>\<open>?\<close> at the end of a round: go on reading, or return the error.\<close>

definition next_round :: "(tcp_server_error + unit) \<times> connection \<Rightarrow> connection" where
  "next_round rc = (case rc of
     (Inr _, co) \<Rightarrow> co\<lparr>co_pc := Reading\<rparr>
   | (Inl e, co) \<Rightarrow> co\<lparr>co_pc := Closed (Inl e)\<rparr>)"

definition reply :: "conn_io \<Rightarrow> string \<Rightarrow> connection \<Rightarrow> connection" where
  "reply io bs co = next_round (write_all io (bs @ [newline]) co)"

definition handle_ping :: "conn_io \<Rightarrow> connection \<Rightarrow> connection" where
  "handle_ping io co = reply io ''PONG'' co"

definition handle_invalid :: "conn_io \<Rightarrow> connection \<Rightarrow> connection" where
  "handle_invalid io co = reply io ''ERR Invalid command'' co"

text \<open>The closure given to \<^verbatim>\<open>add_client\<close>: the result of the send is ignored.\<close>

definition udp_callback :: "socket_addr \<Rightarrow> datagrams callback" where
  "udp_callback udp_addr js w = (Inr (), w @ [(udp_addr, js)])"

definition stream_added :: "conn_io \<Rightarrow> quote_server_error + u64 \<Rightarrow> connection \<Rightarrow> connection" where
  "stream_added io r co = (case r of
     Inl e \<Rightarrow> co\<lparr>co_pc := Closed (Inl (TcpQuoteServerError e))\<rparr>
   | Inr cid \<Rightarrow> reply io ''STREAM OK'' (co\<lparr>co_client_id := Some cid\<rparr>))"

definition handle_stream :: "conn_io \<Rightarrow> string \<Rightarrow> connection \<Rightarrow> server \<Rightarrow> connection \<times> server" where
  "handle_stream io msg co s =
     (let parts = split_whitespace msg in
      if length parts < 3
      then (co\<lparr>co_pc := Closed (Inl (InvalidCommand ''STREAM host:port TICKER...''))\<rparr>, s)
      else (case parse_socket_addr (parts ! 1) of
          None \<Rightarrow> (co\<lparr>co_pc := Closed (Inl (InvalidCommand ''Bad UDP address''))\<rparr>, s)
        | Some udp_addr \<Rightarrow> (case io_bind io of
            Inl e \<Rightarrow> (co\<lparr>co_pc := Closed (Inl (ClientIoError (io_message e)))\<rparr>, s)
          | Inr _ \<Rightarrow> (case add_client (drop 2 parts) (udp_callback udp_addr) s of
              (Done r, s) \<Rightarrow> (stream_added io r co, s)
            | (Join t r, s) \<Rightarrow> (co\<lparr>co_pc := Joining t (AfterStream r)\<rparr>, s)))))"

definition stop_removed :: "conn_io \<Rightarrow> quote_server_error + unit \<Rightarrow> connection \<Rightarrow> connection" where
  "stop_removed io r co = (case r of
     Inl e \<Rightarrow> co\<lparr>co_pc := Closed (Inl (TcpQuoteServerError e))\<rparr>
   | Inr _ \<Rightarrow> reply io ''STOP OK'' co)"

definition handle_stop :: "conn_io \<Rightarrow> connection \<Rightarrow> server \<Rightarrow> connection \<times> server" where
  "handle_stop io co s = (case co_client_id co of
     None \<Rightarrow> (reply io ''STOP OK'' co, s)
   | Some cid \<Rightarrow>
       (let co = co\<lparr>co_client_id := None\<rparr> in
        case remove_client cid s of
          (Done r, s) \<Rightarrow> (stop_removed io r co, s)
        | (Join t r, s) \<Rightarrow> (co\<lparr>co_pc := Joining t (AfterStop r)\<rparr>, s)))"

text \<open>The end of the handler after a keep-alive timeout or a failed read.\<close>

definition timeout_removed :: "quote_server_error + unit \<Rightarrow> connection \<Rightarrow> connection" where
  "timeout_removed r co = co\<lparr>co_pc := Closed (map_err TcpQuoteServerError r)\<rparr>"

definition failure_removed :: "io_error \<Rightarrow> quote_server_error + unit \<Rightarrow> connection \<Rightarrow> connection" where
  "failure_removed e r co = co\<lparr>co_pc := Closed (case r of
     Inl e' \<Rightarrow> Inl (TcpQuoteServerError e')
   | Inr _ \<Rightarrow> Inl (ClientIoError (io_message e)))\<rparr>"

definition handle_timeout :: "conn_io \<Rightarrow> connection \<Rightarrow> server \<Rightarrow> connection \<times> server" where
  "handle_timeout io co s =
     (if (io_now io - co_last_ping co) div 1000 > CLIENT_KEEP_ALIVE_SEC then
        (case co_client_id co of
           None \<Rightarrow> (co\<lparr>co_pc := Closed (Inr ())\<rparr>, s)
         | Some cid \<Rightarrow>
             (let co = co\<lparr>co_client_id := None\<rparr> in
              case remove_client cid s of
                (Done r, s) \<Rightarrow> (timeout_removed r co, s)
              | (Join t r, s) \<Rightarrow> (co\<lparr>co_pc := Joining t (AfterTimeout r)\<rparr>, s)))
      else (co\<lparr>co_pc := Napping (io_now io + TCP_CONNECTION_TICK_PERIOD_MSEC)\<rparr>, s))"

definition handle_failure :: "io_error \<Rightarrow> connection \<Rightarrow> server \<Rightarrow> connection \<times> server" where
  "handle_failure e co s = (case co_client_id co of
     None \<Rightarrow> (failure_removed e (Inr ()) co, s)
   | Some cid \<Rightarrow>
       (let co = co\<lparr>co_client_id := None\<rparr> in
        case remove_client cid s of
          (Done r, s) \<Rightarrow> (failure_removed e r co, s)
        | (Join t r, s) \<Rightarrow> (co\<lparr>co_pc := Joining t (AfterFailure e r)\<rparr>, s)))"

definition handle_line :: "conn_io \<Rightarrow> string \<Rightarrow> connection \<Rightarrow> server \<Rightarrow> connection \<times> server" where
  "handle_line io line co s =
     (let co = co\<lparr>co_last_ping := io_now io\<rparr>; msg = trim line in
      if msg = [] then (co\<lparr>co_pc := Reading\<rparr>, s)
      else if starts_with msg ''PING'' then (handle_ping io co, s)
      else if starts_with msg ''STREAM '' then handle_stream io msg co s
      else if starts_with msg ''STOP'' then handle_stop io co s
      else (handle_invalid io co, s))"

text \<open>One round of the loop of \<^verbatim>\<open>handle_connection\<close>, by what \<^verbatim>\<open>read_line\<close> returned.\<close>

definition handle_read :: "conn_io \<Rightarrow> read_outcome \<Rightarrow> connection \<Rightarrow> server \<Rightarrow> connection \<times> server" where
  "handle_read io outcome co s = (case outcome of
     ReadOk n line \<Rightarrow>
       if n = 0 then (co\<lparr>co_pc := Closed (Inr ())\<rparr>, s) else handle_line io line co s
   | ReadErr e \<Rightarrow>
       if io_kind e = WouldBlock \<or> io_kind e = TimedOut then handle_timeout io co s
       else handle_failure e co s)"

text \<open>A whole round: read with these socket events, all of which it uses up, and act.\<close>

definition conn_round :: "conn_io \<Rightarrow> read_event list \<Rightarrow> connection \<Rightarrow> server \<Rightarrow> (connection \<times> server) option" where
  "conn_round io evs co s =
     (if co_pc co \<noteq> Reading then None
      else (case read_line (co_buf co) evs of
          Some (outcome, buf, []) \<Rightarrow> Some (handle_read io outcome (co\<lparr>co_buf := buf\<rparr>) s)
        | _ \<Rightarrow> None))"

definition conn_wake :: "nat \<Rightarrow> connection \<Rightarrow> connection option" where
  "conn_wake clock co = (case co_pc co of
     Napping u \<Rightarrow> if u \<le> clock then Some (co\<lparr>co_pc := Reading\<rparr>) else None
   | _ \<Rightarrow> None)"

definition run_after :: "conn_io \<Rightarrow> after \<Rightarrow> connection \<Rightarrow> connection" where
  "run_after io a co = (case a of
     AfterStream r \<Rightarrow> stream_added io r co
   | AfterStop r \<Rightarrow> stop_removed io r co
   | AfterTimeout r \<Rightarrow> timeout_removed r co
   | AfterFailure e r \<Rightarrow> failure_removed e r co)"

definition conn_resume :: "conn_io \<Rightarrow> connection \<Rightarrow> server \<Rightarrow> (connection \<times> server) option" where
  "conn_resume io co s = (case co_pc co of
     Joining t a \<Rightarrow> (case call_resume t s of
         None \<Rightarrow> None
       | Some s' \<Rightarrow> Some (run_after io a co, s'))
   | _ \<Rightarrow> None)"


section \<open>The handlers keep the server's invariant\<close>

lemmas conn_defs = handle_read_def handle_line_def handle_ping_def handle_invalid_def
  handle_stream_def handle_stop_def handle_timeout_def handle_failure_def Let_def

text \<open>Every round changes the server by at most one call of \<open>add_client\<close> or \<open>remove_client\<close>.\<close>

lemma handle_read_server:
  "handle_read io outcome co s = (co', s') \<Longrightarrow>
   s' = s \<or>
   (\<exists>ts addr. s' = snd (add_client ts (udp_callback addr) s)) \<or>
   (\<exists>cid. co_client_id co = Some cid \<and> s' = snd (remove_client cid s) \<and> co_client_id co' = None)"
  by (auto simp: conn_defs reply_def next_round_def write_all_def stop_removed_def
      timeout_removed_def failure_removed_def
      split: read_outcome.splits option.splits sum.splits prod.splits call.splits if_splits)
    (metis snd_conv)+

lemma handle_read_inv:
  "server_inv s \<Longrightarrow> handle_read io outcome co s = (co', s') \<Longrightarrow> server_inv s'"
  using handle_read_server [of io outcome co s co' s'] add_client_inv [of s] remove_client_inv [of s]
  by blast

lemma conn_round_inv: "server_inv s \<Longrightarrow> conn_round io evs co s = Some (co', s') \<Longrightarrow> server_inv s'"
  by (auto simp: conn_round_def dest: handle_read_inv
      split: if_splits option.splits prod.splits list.splits)

lemma conn_resume_inv: "server_inv s \<Longrightarrow> conn_resume io co s = Some (co', s') \<Longrightarrow> server_inv s'"
  by (auto simp: conn_resume_def dest: call_resume_inv split: conn_pc.splits option.splits)

lemma reply_ok:
  "io_write io = Inr () \<Longrightarrow>
   reply io bs co = co\<lparr>co_written := co_written co @ bs @ [newline], co_pc := Reading\<rparr>"
  by (simp add: reply_def write_all_def next_round_def)


section \<open>Properties\<close>

definition answer :: "string \<Rightarrow> string option" where
  "answer msg =
     (if msg = [] then Some []
      else if starts_with msg ''PING'' then Some (''PONG'' @ [newline])
      else if starts_with msg ''STREAM '' then None
      else if starts_with msg ''STOP'' then Some (''STOP OK'' @ [newline])
      else Some (''ERR Invalid command'' @ [newline]))"

text \<open>
  What a line is answered, when writing succeeds and no client has to be removed. An
  empty line gets no answer, a line that starts with \<open>PING\<close> gets \<open>PONG\<close>, one that starts with
  \<open>STOP\<close> gets \<open>STOP OK\<close>, and anything that starts with none of the commands gets
  \<open>ERR Invalid command\<close>; in each case the server is unchanged, the keep-alive clock is reset
  and the connection reads on.
\<close>

lemma line_answers:
  assumes "n \<noteq> 0" and "io_write io = Inr ()" and "answer (trim line) = Some bs"
    and "co_client_id co = None \<or> \<not> starts_with (trim line) ''STOP''"
  shows "handle_read io (ReadOk n line) co s =
     (co\<lparr>co_last_ping := io_now io, co_written := co_written co @ bs, co_pc := Reading\<rparr>, s)"
  using assms
  by (auto simp: conn_defs answer_def reply_ok split: if_splits option.splits)

definition good_io :: "nat \<Rightarrow> conn_io" where
  "good_io t = \<lparr>io_now = t, io_write = Inr (), io_partial = 0, io_bind = Inr ()\<rparr>"

definition fresh_connection :: connection where
  "fresh_connection = open_connection 0 (Inr ()) (Inr ())"

definition example_tcp_server :: server where
  "example_tcp_server = initial_server [''AAPL'' \<mapsto> example_quote ''AAPL''] \<lparr>volatility = VOLATILITY\<rparr> []"

lemma example_tcp_server_serving:
  "server_inv example_tcp_server \<and> \<not> clients_poisoned example_tcp_server \<and>
   clients example_tcp_server = Map.empty \<and> clients_count example_tcp_server = 0 \<and>
   rt_threads example_tcp_server = Map.empty \<and> rt_next example_tcp_server = 0"
  unfolding example_tcp_server_def
  by (intro conjI initial_server_inv) (simp_all add: quotes_wf_def example_quote_def initial_server_def)

lemma example_tcp_server_subs: "subscriptions example_tcp_server = Map.empty"
  using example_tcp_server_serving by (simp add: subscriptions_def fun_eq_iff)

lemma trim_ping: "trim (''PING'' @ [newline]) = ''PING''"
  unfolding newline_def by (rule trim_line) (simp_all add: is_ascii_def byte_of_def is_space_iff)

lemma line_answers_witness:
  "co_written (fst (handle_read (good_io 7) (ReadOk 5 (''PING'' @ [newline])) fresh_connection
     example_tcp_server)) = ''PONG'' @ [newline]"
  using line_answers [of 5 "good_io 7" "''PING'' @ [newline]" "''PONG'' @ [newline]"
      fresh_connection example_tcp_server]
  by (simp add: good_io_def answer_def trim_ping [simplified] starts_with_def
      fresh_connection_def open_connection_def)

definition stream_line :: "string \<Rightarrow> string list \<Rightarrow> string" where
  "stream_line addr ts = ''STREAM'' @ concat (map (\<lambda>t. '' '' @ t) (addr # ts))"

definition word :: "string \<Rightarrow> bool" where
  "word t \<longleftrightarrow> ascii t \<and> t \<noteq> [] \<and> (\<forall>c \<in> set t. \<not> is_space c)"

lemma digit_word_char: "is_digit c \<or> c = CHR ''.'' \<or> c = CHR '':'' \<Longrightarrow> is_ascii c \<and> \<not> is_space c"
  by (auto simp: is_digit_def is_ascii_def is_space_iff byte_of_def)

lemma show_v4_word: "word (show_v4 a b c d p)"
proof -
  have "\<forall>x \<in> set (show_v4 a b c d p). is_digit x \<or> x = CHR ''.'' \<or> x = CHR '':''"
    using show_nat_digits unfolding show_v4_def list_all_iff by auto
  then show ?thesis
    using digit_word_char unfolding word_def list_all_iff by (auto simp: show_v4_def)
qed

lemma stream_line_words:
  assumes "word addr" and "list_all word ts"
  shows "ascii (stream_line addr ts)" and "split_whitespace (stream_line addr ts) = ''STREAM'' # addr # ts"
    and "\<not> is_space (last (stream_line addr ts))"
proof -
  have w: "ascii ''STREAM''" "\<forall>c \<in> set ''STREAM''. \<not> is_space c"
    by (simp_all add: is_ascii_def is_space_iff byte_of_def)
  have ts: "list_all (\<lambda>t. ascii t \<and> t \<noteq> [] \<and> (\<forall>c \<in> set t. \<not> is_space c)) (addr # ts)"
    using assms by (auto simp: word_def list_all_iff)
  from split_whitespace_words [OF w(1) _ w(2) ts]
  show "ascii (stream_line addr ts)" and "split_whitespace (stream_line addr ts) = ''STREAM'' # addr # ts"
    by (simp_all add: stream_line_def)
  obtain pre t where "stream_line addr ts = pre @ t" and "word t"
  proof (cases ts rule: rev_cases)
    case Nil
    with assms that [of "''STREAM ''" addr] show thesis by (simp add: stream_line_def)
  next
    case (snoc us t)
    with assms that [of "''STREAM'' @ concat (map (\<lambda>t. '' '' @ t) (addr # us)) @ '' ''" t] show thesis
      by (simp add: stream_line_def)
  qed
  then show "\<not> is_space (last (stream_line addr ts))"
    by (auto simp: word_def)
qed

lemma stream_line_trim:
  assumes "word addr" and "list_all word ts"
  shows "trim (stream_line addr ts @ [newline]) = stream_line addr ts"
    and "starts_with (stream_line addr ts) ''STREAM ''"
    and "\<not> starts_with (stream_line addr ts) ''PING''"
    and "stream_line addr ts \<noteq> []"
proof -
  show "trim (stream_line addr ts @ [newline]) = stream_line addr ts"
    unfolding newline_def
    by (rule trim_line [OF stream_line_words(1) [OF assms] _ _ stream_line_words(3) [OF assms]])
      (simp_all add: stream_line_def is_space_iff)
qed (simp_all add: stream_line_def starts_with_def)

lemma stream_line_read:
  assumes "\<not> clients_poisoned s" and "clients s (clients_count s) = None"
    and "ts \<noteq> []" and "list_all word ts"
    and "io_write io = Inr ()" and "io_bind io = Inr ()" and "n \<noteq> 0"
  shows "handle_read io (ReadOk n (stream_line (show_v4 a b c d p) ts @ [newline])) co s =
    (co\<lparr>co_last_ping := io_now io, co_client_id := Some (clients_count s),
        co_written := co_written co @ ''STREAM OK'' @ [newline], co_pc := Reading\<rparr>,
     snd (add_client ts (udp_callback (SocketV4 a b c d p)) s))"
proof -
  let ?l = "stream_line (show_v4 a b c d p) ts"
  note w = show_v4_word [of a b c d p]
  note tl = stream_line_trim [OF w assms(4)]
  have parts: "split_whitespace ?l = ''STREAM'' # show_v4 a b c d p # ts"
    using stream_line_words(2) [OF w assms(4)] .
  obtain s' where s': "add_client ts (udp_callback (SocketV4 a b c d p)) s =
      (Done (Inr (clients_count s)), s')"
    using add_client_fresh [OF assms(1,2)] by blast
  moreover have "\<not> length (''STREAM'' # show_v4 a b c d p # ts) < 3" using assms(3) by (cases ts) auto
  ultimately show ?thesis
    using tl assms(5,6,7)
    by (simp add: conn_defs parts parse_show_v4 stream_added_def reply_ok)
qed

text \<open>
  The text of a \<open>STREAM\<close> command round-trips. The line made of the command, an IPv4
  socket address as Rust prints it and one or more tickers (words of printable ASCII)
  registers a client with exactly these tickers, in this order, whose callback sends to
  exactly this address; the connection stores the new id and answers \<open>STREAM OK\<close>.
\<close>

lemma stream_command_roundtrip:
  assumes "serving s" and "clients s (clients_count s) = None" and "ts \<noteq> []" and "list_all word ts"
    and "io_write io = Inr ()" and "io_bind io = Inr ()" and "n \<noteq> 0"
  shows "case handle_read io (ReadOk n (stream_line (show_v4 a b c d p) ts @ [newline])) co s of (co', s') \<Rightarrow>
     co' = co\<lparr>co_last_ping := io_now io, co_client_id := Some (clients_count s),
              co_written := co_written co @ ''STREAM OK'' @ [newline], co_pc := Reading\<rparr> \<and>
     subscriptions s' = (subscriptions s)(clients_count s \<mapsto> (ts, udp_callback (SocketV4 a b c d p)))"
proof -
  have "\<not> clients_poisoned s" using assms(1) by (simp add: serving_def)
  from stream_line_read [OF this assms(2-7)]
    clients_registry.subs_add [OF assms(1), of "(ts, udp_callback (SocketV4 a b c d p))"]
  show ?thesis by (simp add: add_sub_def)
qed

lemma stream_command_roundtrip_witness:
  "subscriptions (snd (handle_read (good_io 7)
     (ReadOk 30 (stream_line (show_v4 127 0 0 1 50000) [''AAPL'', ''MSFT''] @ [newline]))
     fresh_connection example_tcp_server)) =
   [0 \<mapsto> ([''AAPL'', ''MSFT''], udp_callback (SocketV4 127 0 0 1 50000))]"
  using stream_command_roundtrip [where s = example_tcp_server and ts = "[''AAPL'', ''MSFT'']"
      and io = "good_io 7" and n = 30 and a = 127 and b = 0 and c = 0 and d = 1 and p = 50000
      and co = fresh_connection] example_tcp_server_serving example_tcp_server_subs
  by (simp add: serving_def good_io_def word_def is_ascii_def is_space_iff byte_of_def case_prod_beta)

end
