(* ===== verification/Tcp_Protocol.thy ===== *)
theory Tcp_Protocol
  imports Tcp_Server
begin

text \<open>
  What the connection handler of \<open>Tcp_Server\<close> promises over one or more rounds: framing of
  the byte stream into lines, the keep-alive limit, the commands that close a connection,
  and what happens to the client a connection has registered.
\<close>

section \<open>Commands\<close>

lemma command_stream:
  assumes "starts_with msg ''STREAM ''"
  shows "msg \<noteq> [] \<and> \<not> starts_with msg ''PING''"
  using assms starts_with_both [OF assms, of "''PING''"] by (auto simp: starts_with_def)

lemma command_stop:
  assumes "starts_with msg ''STOP''"
  shows "msg \<noteq> [] \<and> \<not> starts_with msg ''PING'' \<and> \<not> starts_with msg ''STREAM ''"
  using assms starts_with_both [OF assms, of "''PING''"] starts_with_both [OF assms, of "''STREAM ''"]
  by (auto simp: starts_with_def)


section \<open>Framing\<close>

lemma conn_round_eq:
  assumes "co_pc co = Reading" and "read_line (co_buf co) evs = Some (outcome, buf, [])"
  shows "conn_round io evs co s = Some (handle_read io outcome (co\<lparr>co_buf := buf\<rparr>) s)"
  using assms by (simp add: conn_round_def)

text \<open>
  C17: how the network cuts the bytes of a line into segments does not matter as long as no
  read fails: the round ends at the first newline, acts on exactly the bytes up to it,
  and the bytes after it are the beginning of the next line.
\<close>

theorem line_framing:
  assumes "co_pc co = Reading" and "all_data evs" and "newline \<notin> set l"
    and "co_buf co @ event_bytes evs = l @ newline # rest"
  shows "\<exists>now later buf. evs = now @ later \<and> buf @ event_bytes later = rest \<and>
     conn_round io now co s =
       Some (handle_read io (line_outcome (l @ [newline]) None) (co\<lparr>co_buf := buf\<rparr>) s)"
proof -
  obtain buf later where r: "read_until [] (co_buf co) evs = Some (l @ [newline], None, buf, later)"
    and b: "buf @ event_bytes later = rest"
    using read_until_chunks [OF assms(2,3,4), of "[]"] by auto
  obtain pre where p: "evs = pre @ later" "read_until [] (co_buf co) pre = Some (l @ [newline], None, buf, [])"
    using read_until_prefix [OF r] by blast
  have "read_line (co_buf co) pre = Some (line_outcome (l @ [newline]) None, buf, [])"
    using p(2) by (simp add: read_line_def)
  from conn_round_eq [OF assms(1) this] p(1) b show ?thesis by blast
qed

theorem line_framing_witness:
  "\<exists>now later buf. [Data ''PI'', Data (''NG'' @ newline # ''ST'')] = now @ later \<and>
     buf @ event_bytes later = ''ST'' \<and>
     conn_round (good_io 7) now fresh_connection example_tcp_server =
       Some (handle_read (good_io 7) (line_outcome (''PING'' @ [newline]) None)
         (fresh_connection\<lparr>co_buf := buf\<rparr>) example_tcp_server)"
  by (rule line_framing) (simp_all add: fresh_connection_def open_connection_def all_data_def newline_def)

definition timeout_error :: "io_error \<Rightarrow> bool" where
  "timeout_error e \<longleftrightarrow> io_kind e = WouldBlock \<or> io_kind e = TimedOut"

lemma seconds_elapsed: "CLIENT_KEEP_ALIVE_SEC < (t - t0) div 1000 \<longleftrightarrow> t0 + 6000 \<le> t"
proof -
  have "CLIENT_KEEP_ALIVE_SEC < (t - t0) div 1000 \<longleftrightarrow> 6 \<le> (t - t0) div 1000"
    by (auto simp: CLIENT_KEEP_ALIVE_SEC_def)
  also have "\<dots> \<longleftrightarrow> 6000 \<le> t - t0" by (simp add: less_eq_div_iff_mult_less_eq)
  finally show ?thesis by auto
qed

lemma timeout_in_time:
  assumes "timeout_error e" and "io_now io < co_last_ping co + 6000"
  shows "handle_read io (ReadErr e) co s =
     (co\<lparr>co_pc := Napping (io_now io + TCP_CONNECTION_TICK_PERIOD_MSEC)\<rparr>, s)"
  using assms by (simp add: handle_read_def timeout_error_def handle_timeout_def seconds_elapsed)

lemma timeout_not_interrupted: "timeout_error e \<Longrightarrow> io_kind e \<noteq> Interrupted"
  by (auto simp: timeout_error_def)

lemma read_line_timeout:
  assumes "newline \<notin> set xs" and "timeout_error e"
  shows "read_line [] [Data xs, ReadFail e] = Some (ReadErr e, [], [])"
  using assms timeout_not_interrupted [OF assms(2)]
  by (simp add: read_line_def line_outcome_def read_until.simps [of "[]"] read_until.simps [of "[]" xs])

lemma read_line_whole:
  assumes "newline \<notin> set ys"
  shows "read_line [] [Data (ys @ [newline])] = Some (line_outcome (ys @ [newline]) None, [], [])"
proof -
  have y: "\<forall>y \<in> set ys. y \<noteq> newline" using assms by auto
  then have "takeWhile (\<lambda>c. c \<noteq> newline) (ys @ [newline]) = ys"
    and "dropWhile (\<lambda>c. c \<noteq> newline) (ys @ [newline]) = [newline]"
    by (simp_all add: takeWhile_append_stop dropWhile_append_stop)
  then show ?thesis
    by (simp add: read_line_def read_until.simps [of "[]" "[]"]
        read_until.simps [of "[]" "ys @ [newline]"])
qed

text \<open>
  C32: the bytes of an unfinished line are lost at a read timeout. When part of a line has
  arrived and the read then times out within the keep-alive limit, the handler sleeps and
  is afterwards in exactly the state from before; the rest of the line is taken for a whole
  one. So a command that arrives in two segments more than 200 ms apart is not understood.
\<close>

theorem timeout_drops_partial_line:
  assumes "co_pc co = Reading" and "co_buf co = []" and "newline \<notin> set xs" and "newline \<notin> set ys"
    and "timeout_error e" and "io_now io < co_last_ping co + 6000"
  shows "\<exists>co'. conn_round io [Data xs, ReadFail e] co s = Some (co', s) \<and>
     conn_wake (io_now io + TCP_CONNECTION_TICK_PERIOD_MSEC) co' = Some co \<and>
     conn_round io' [Data (ys @ [newline])] co s =
       Some (handle_read io' (line_outcome (ys @ [newline]) None) co s)"
proof -
  have co: "co\<lparr>co_buf := []\<rparr> = co" "co\<lparr>co_pc := Reading\<rparr> = co"
    using assms(1,2) by (simp_all add: assms(1,2) [symmetric])
  note h = timeout_in_time [OF assms(5,6), of s]
  have "conn_round io [Data xs, ReadFail e] co s =
      Some (co\<lparr>co_pc := Napping (io_now io + TCP_CONNECTION_TICK_PERIOD_MSEC)\<rparr>, s)"
    using conn_round_eq [OF assms(1), of "[Data xs, ReadFail e]" "ReadErr e" "[]"] h co(1)
      read_line_timeout [OF assms(3,5)] assms(2) by simp
  moreover have "conn_round io' [Data (ys @ [newline])] co s =
      Some (handle_read io' (line_outcome (ys @ [newline]) None) co s)"
    using conn_round_eq [OF assms(1), of "[Data (ys @ [newline])]"] read_line_whole [OF assms(4)]
      assms(2) co(1) by simp
  ultimately show ?thesis by (simp add: conn_wake_def co(2))
qed

theorem timeout_drops_partial_line_witness:
  "\<exists>co'. conn_round (good_io 100) [Data ''PI'', ReadFail \<lparr>io_kind = WouldBlock, io_message = []\<rparr>]
      fresh_connection example_tcp_server = Some (co', example_tcp_server) \<and>
    conn_wake 300 co' = Some fresh_connection"
  using timeout_drops_partial_line [of fresh_connection "''PI''" "''NG''"
      "\<lparr>io_kind = WouldBlock, io_message = []\<rparr>" "good_io 100" example_tcp_server "good_io 400"]
  by (auto simp: fresh_connection_def open_connection_def newline_def timeout_error_def good_io_def
      TCP_CONNECTION_TICK_PERIOD_MSEC_def)


section \<open>Keep-alive\<close>

lemma removed_call:
  assumes "serving s"
  obtains (absent) "clients s cid = None" and "remove_client cid s = (Done (Inr ()), s)"
  | (registered) c t th s' where "clients s cid = Some c" and "cl_tx c = Some t"
      and "rt_threads s t = Some th" and "live th"
      and "remove_client cid s = (Join t (Inr ()), s')"
      and "s' = s\<lparr>clients := (clients s)(cid := None),
         rt_threads := (rt_threads s)(t \<mapsto> push_cmd Shutdown th), clients_locked := True\<rparr>"
proof (cases "clients s cid")
  case None
  with assms show thesis by (intro absent) (simp_all add: serving_def remove_client_absent)
next
  case (Some c)
  have inv: "server_inv s" and np: "\<not> clients_poisoned s" using assms by (simp_all add: serving_def)
  obtain t th where "serves s c t" "rt_threads s t = Some th" "live th"
    using registered_thread [OF inv Some] by blast
  with remove_client_registered [OF np Some] Some registered show thesis
    by (simp add: serves_def)
qed

lemma timeout_too_late:
  assumes "serving s" and "timeout_error e" and "handle_read io (ReadErr e) co s = (co', s')"
    and "co_last_ping co + 6000 \<le> io_now io"
  shows "co_client_id co' = None \<and> co_written co' = co_written co \<and>
     clients s' = (case co_client_id co of None \<Rightarrow> clients s | Some cid \<Rightarrow> (clients s)(cid := None)) \<and>
     (co_pc co' = Closed (Inr ()) \<or> (\<exists>t. co_pc co' = Joining t (AfterTimeout (Inr ()))))"
proof -
  have r: "handle_timeout io co s = (co', s')"
    using assms(2,3) by (simp add: handle_read_def timeout_error_def)
  have late: "CLIENT_KEEP_ALIVE_SEC < (io_now io - co_last_ping co) div 1000"
    using assms(4) by (simp add: seconds_elapsed)
  show ?thesis
  proof (cases "co_client_id co")
    case None
    with r late show ?thesis by (auto simp: handle_timeout_def)
  next
    case (Some cid)
    show ?thesis
    proof (cases rule: removed_call [OF assms(1), of cid, case_names absent registered])
      case absent
      with r late Some show ?thesis by (auto simp: handle_timeout_def timeout_removed_def fun_upd_idem)
    next
      case registered
      with r late Some show ?thesis by (auto simp: handle_timeout_def)
    qed
  qed
qed

text \<open>
  C15: the keep-alive rule. When a read times out less than six seconds after the last line,
  the handler only sleeps; from six seconds on it gives up: it forgets its client, the
  client is unregistered, nothing is written, and the handler returns without an error, at
  once or when the client's thread has been joined.
\<close>

theorem keep_alive_rule:
  assumes "serving s" and "timeout_error e" and "handle_read io (ReadErr e) co s = (co', s')"
  shows "if io_now io < co_last_ping co + 6000
     then co' = co\<lparr>co_pc := Napping (io_now io + TCP_CONNECTION_TICK_PERIOD_MSEC)\<rparr> \<and> s' = s
     else co_client_id co' = None \<and> co_written co' = co_written co \<and>
       clients s' = (case co_client_id co of
         None \<Rightarrow> clients s | Some cid \<Rightarrow> (clients s)(cid := None)) \<and>
       (co_pc co' = Closed (Inr ()) \<or> (\<exists>t. co_pc co' = Joining t (AfterTimeout (Inr ()))))"
  using timeout_in_time [OF assms(2), of io co s] timeout_too_late [OF assms] assms(3) by auto

theorem keep_alive_rule_witness:
  "co_pc (fst (handle_read (good_io 6000) (ReadErr \<lparr>io_kind = TimedOut, io_message = []\<rparr>)
     fresh_connection example_tcp_server)) \<noteq> Napping 6200 \<and>
   co_pc (fst (handle_read (good_io 5999) (ReadErr \<lparr>io_kind = TimedOut, io_message = []\<rparr>)
     fresh_connection example_tcp_server)) = Napping 6199"
proof -
  let ?r = "\<lambda>t. handle_read (good_io t) (ReadErr \<lparr>io_kind = TimedOut, io_message = []\<rparr>)
     fresh_connection example_tcp_server"
  have "serving example_tcp_server" using example_tcp_server_serving by (simp add: serving_def)
  then have k: "if io_now (good_io t) < co_last_ping fresh_connection + 6000
     then fst (?r t) = fresh_connection\<lparr>co_pc := Napping (io_now (good_io t) + TCP_CONNECTION_TICK_PERIOD_MSEC)\<rparr> \<and>
       snd (?r t) = example_tcp_server
     else co_client_id (fst (?r t)) = None \<and> co_written (fst (?r t)) = co_written fresh_connection \<and>
       clients (snd (?r t)) = (case co_client_id fresh_connection of
         None \<Rightarrow> clients example_tcp_server | Some cid \<Rightarrow> (clients example_tcp_server)(cid := None)) \<and>
       (co_pc (fst (?r t)) = Closed (Inr ()) \<or> (\<exists>j. co_pc (fst (?r t)) = Joining j (AfterTimeout (Inr ()))))" for t
    by (rule keep_alive_rule) (simp_all add: timeout_error_def)
  have "co_last_ping fresh_connection = 0" by (simp add: fresh_connection_def open_connection_def)
  with k [of 6000] k [of 5999] show ?thesis
    by (auto simp: good_io_def TCP_CONNECTION_TICK_PERIOD_MSEC_def)
qed


section \<open>Stopping and failing\<close>

text \<open>
  C14: the \<open>STOP\<close> command of a connection with a registered client. The client is
  unregistered and its thread told to finish before anything is written; the handler waits
  for the thread, and only then answers \<open>STOP OK\<close> and reads on, without a client.
\<close>

theorem stop_protocol:
  assumes "serving s" and "co_client_id co = Some cid" and "clients s cid = Some c"
    and "starts_with (trim line) ''STOP''" and "n \<noteq> 0" and "io_write io' = Inr ()"
  shows "\<exists>t co1 s1. handle_read io (ReadOk n line) co s = (co1, s1) \<and>
     cl_tx c = Some t \<and> co_pc co1 = Joining t (AfterStop (Inr ())) \<and> co_written co1 = co_written co \<and>
     clients s1 = (clients s)(cid := None) \<and> conn_resume io' co1 s1 = None \<and>
     (\<forall>s2. rt_finished t s2 \<longrightarrow> (\<exists>s3. conn_resume io' co1 s2 =
        Some (co\<lparr>co_last_ping := io_now io, co_client_id := None,
                 co_written := co_written co @ ''STOP OK'' @ [newline], co_pc := Reading\<rparr>, s3)))"
proof (cases rule: removed_call [OF assms(1), of cid, case_names absent registered])
  case absent
  with assms(3) show ?thesis by simp
next
  case (registered c' t th s')
  have h: "handle_read io (ReadOk n line) co s =
      (co\<lparr>co_last_ping := io_now io, co_client_id := None, co_pc := Joining t (AfterStop (Inr ()))\<rparr>, s')"
    using assms(2,4,5) command_stop [OF assms(4)] registered
    by (simp add: handle_read_def handle_line_def handle_stop_def Let_def)
  have "\<not> rt_finished t s'"
    using registered by (simp add: rt_finished_def live_def)
  then show ?thesis
    using h registered assms(3,6)
    by (auto simp: conn_resume_def call_resume_def run_after_def stop_removed_def reply_ok)
qed

definition subscribed_server :: server where
  "subscribed_server = snd (add_client [''AAPL''] (udp_callback (SocketV4 127 0 0 1 50000)) example_tcp_server)"

lemma subscribed_server_serving: "serving subscribed_server"
  using clients_registry.ok_add [of example_tcp_server "([''AAPL''], udp_callback (SocketV4 127 0 0 1 50000))"]
    example_tcp_server_serving
  by (simp add: subscribed_server_def add_sub_def serving_def)

lemma subscribed_server_clients:
  "clients subscribed_server = [0 \<mapsto> started_client [''AAPL''] (udp_callback (SocketV4 127 0 0 1 50000)) 0]"
  using add_client_fresh [of example_tcp_server "[''AAPL'']" "udp_callback (SocketV4 127 0 0 1 50000)"]
    example_tcp_server_serving
  by (simp add: subscribed_server_def)

lemma trim_stop: "trim (''STOP'' @ [newline]) = ''STOP''"
  unfolding newline_def by (rule trim_line) (simp_all add: is_ascii_def byte_of_def is_space_iff)

theorem stop_protocol_witness:
  "\<exists>co1 s1. handle_read (good_io 7) (ReadOk 5 (''STOP'' @ [newline]))
     (fresh_connection\<lparr>co_client_id := Some 0\<rparr>) subscribed_server = (co1, s1) \<and>
     co_pc co1 = Joining 0 (AfterStop (Inr ()))"
  using stop_protocol [OF subscribed_server_serving, of "fresh_connection\<lparr>co_client_id := Some 0\<rparr>" 0
      "started_client [''AAPL''] (udp_callback (SocketV4 127 0 0 1 50000)) 0"
      "''STOP'' @ [newline]" 5 "good_io 9" "good_io 7"]
  unfolding trim_stop
  by (auto simp: subscribed_server_clients starts_with_def good_io_def started_client_def)

text \<open>
  A malformed \<open>STREAM\<close> command (fewer than three words, or an address that does not
  parse) ends the connection with the error \<open>InvalidCommand\<close>: nothing is written, not even
  the \<open>ERR\<close> line other invalid commands get, and the server is left alone, so a client
  registered earlier stays registered.
\<close>

lemma malformed_stream_closes:
  assumes "n \<noteq> 0" and "starts_with (trim line) ''STREAM ''"
    and "length (split_whitespace (trim line)) < 3 \<or>
         parse_socket_addr (split_whitespace (trim line) ! 1) = None"
  shows "\<exists>m. handle_read io (ReadOk n line) co s =
     (co\<lparr>co_last_ping := io_now io, co_pc := Closed (Inl (InvalidCommand m))\<rparr>, s)"
  using assms command_stream [OF assms(2)]
  by (auto simp: handle_read_def handle_line_def handle_stream_def Let_def)

lemma malformed_stream_closes_witness:
  "\<exists>m. handle_read (good_io 7) (ReadOk 9 (stream_line ''x'' [] @ [newline])) fresh_connection subscribed_server =
     (fresh_connection\<lparr>co_last_ping := 7, co_pc := Closed (Inl (InvalidCommand m))\<rparr>, subscribed_server)"
proof -
  have w: "word ''x''" "list_all word []" by (simp_all add: word_def is_ascii_def is_space_iff byte_of_def)
  show ?thesis
    using malformed_stream_closes [of 9 "stream_line ''x'' [] @ [newline]" "good_io 7" fresh_connection subscribed_server]
      stream_line_trim [OF w] stream_line_words(2) [OF w]
    by (simp add: good_io_def)
qed

text \<open>
  C31: a client outlives its connection. When the peer closes the connection, or sends any
  \<open>STREAM\<close> command, the client the connection had registered stays registered, and the
  handler returns or, after a second \<open>STREAM\<close>, remembers only the new client.
\<close>

theorem client_outlives_connection:
  assumes "serving s" and "co_client_id co = Some cid" and "cid \<noteq> clients_count s"
    and "clients s (clients_count s) = None"
    and "outcome = ReadOk 0 line \<or> outcome = ReadOk n line \<and> starts_with (trim line) ''STREAM ''"
    and "handle_read io outcome co s = (co', s')"
  shows "clients s' cid = clients s cid \<and>
     ((\<exists>r. co_pc co' = Closed r) \<or> co_client_id co' = Some (clients_count s))"
proof -
  have np: "\<not> clients_poisoned s" using assms(1) by (simp add: serving_def)
  from command_stream assms(3,5,6) show ?thesis
    by (auto simp: handle_read_def handle_line_def handle_stream_def Let_def
        add_client_fresh [OF np assms(4)] stream_added_def reply_def next_round_def write_all_def
        split: if_splits option.splits sum.splits)
qed

theorem client_outlives_connection_witness:
  "clients (snd (handle_read (good_io 7) (ReadOk 0 []) (fresh_connection\<lparr>co_client_id := Some 0\<rparr>)
     subscribed_server)) 0 \<noteq> None"
proof -
  have "clients_count subscribed_server = 1"
    using add_client_fresh [of example_tcp_server "[''AAPL'']" "udp_callback (SocketV4 127 0 0 1 50000)"]
      example_tcp_server_serving
    by (simp add: subscribed_server_def)
  with client_outlives_connection [OF subscribed_server_serving,
      of "fresh_connection\<lparr>co_client_id := Some 0\<rparr>" 0 "ReadOk 0 []" "[]" 1 "good_io 7"]
  show ?thesis
    by (simp add: subscribed_server_clients prod_eq_iff)
qed

end
