(* ===== verification/Server_Progress.thy ===== *)
theory Server_Progress
  imports Tcp_Protocol
begin

text \<open>
  What the operations of \<open>Quote_Server\<close> and the connection handler do to the threads and to
  the other fields of a server: a relation \<open>advances\<close> (threads keep their tickers and
  callbacks, a thread told to finish stays so, a finished one stays finished) and the fields
  each operation leaves alone. Every step of the concurrent system is one of these.
\<close>

section \<open>Threads that have to finish\<close>

definition doomed :: "'w client_thread \<Rightarrow> bool" where
  "doomed th \<longleftrightarrow> th_pc th = Finished \<or> Shutdown \<in> set (ch_queue (th_chan th))"

text \<open>The tickers a thread has still to visit are among its own.\<close>

definition visits_own :: "'w client_thread \<Rightarrow> bool" where
  "visits_own th \<longleftrightarrow> (case th_pc th of Notifying ts _ \<Rightarrow> set ts \<subseteq> set (th_tickers th) | _ \<Rightarrow> True)"

definition thread_le :: "'w client_thread \<Rightarrow> 'w client_thread \<Rightarrow> bool" where
  "thread_le th th' \<longleftrightarrow> th_tickers th' = th_tickers th \<and> th_callback th' = th_callback th \<and>
     (doomed th \<longrightarrow> doomed th') \<and> (th_pc th = Finished \<longrightarrow> th_pc th' = Finished) \<and>
     (visits_own th \<longrightarrow> visits_own th')"

definition advances :: "('w, 'z) runtime_scheme \<Rightarrow> ('w, 'y) runtime_scheme \<Rightarrow> bool" where
  "advances s s' \<longleftrightarrow> (\<forall>t th. rt_threads s t = Some th \<longrightarrow>
     (\<exists>th'. rt_threads s' t = Some th' \<and> thread_le th th'))"

lemma thread_le_refl [simp]: "thread_le th th"
  by (simp add: thread_le_def)

lemma thread_le_trans: "thread_le th th' \<Longrightarrow> thread_le th' th'' \<Longrightarrow> thread_le th th''"
  by (simp add: thread_le_def)

lemma visits_own_cong:
  "th_pc th' = th_pc th \<Longrightarrow> th_tickers th' = th_tickers th \<Longrightarrow> visits_own th' = visits_own th"
  unfolding visits_own_def by presburger

lemma thread_le_push [simp]: "thread_le th (push_cmd cmd th)"
  using visits_own_cong [of "push_cmd cmd th" th] by (auto simp: thread_le_def doomed_def)

lemma doomed_push [simp]: "doomed (push_cmd Shutdown th)"
  by (simp add: doomed_def)

lemma thread_le_step:
  "thread_step ser qs p th w = Some (th', w') \<Longrightarrow> thread_le th th'"
  by (auto simp: thread_le_def doomed_def visits_own_def thread_step_def thread_finish_def chan_recv_def chan_drop_receiver_def
      split: thread_pc.splits list.splits option.splits prod.splits received.splits
        client_command.splits if_splits)

lemma advances_same: "rt_threads s' = rt_threads s \<Longrightarrow> advances s s'"
  by (simp add: advances_def)

lemma advances_trans: "advances s s' \<Longrightarrow> advances s' s'' \<Longrightarrow> advances s s''"
  unfolding advances_def by (metis thread_le_trans)

lemma advances_upd:
  assumes "rt_threads s' = (rt_threads s)(t \<mapsto> th')"
    and "\<And>th. rt_threads s t = Some th \<Longrightarrow> thread_le th th'"
  shows "advances s s'"
  using assms by (auto simp: advances_def)

lemma advancesD:
  "advances s s' \<Longrightarrow> rt_threads s t = Some th \<Longrightarrow> \<exists>th'. rt_threads s' t = Some th' \<and> thread_le th th'"
  by (simp add: advances_def)


section \<open>The operations\<close>

text \<open>The fields no client operation touches.\<close>

definition same_rest :: "'w quote_server \<Rightarrow> 'w quote_server \<Rightarrow> bool" where
  "same_rest s s' \<longleftrightarrow> quotes s' = quotes s \<and> quotes_poisoned s' = quotes_poisoned s \<and>
     generator s' = generator s \<and> clients_poisoned s' = clients_poisoned s \<and>
     bg_thread s' = bg_thread s \<and> bg_poisoned s' = bg_poisoned s \<and>
     shutdown_flag s' = shutdown_flag s \<and> bg_threads s' = bg_threads s"

lemma same_rest_refl [simp]: "same_rest s s"
  by (simp add: same_rest_def)

text \<open>
  The effect of one call on the clients: threads advance, new ones are fresh threads with a
  callback from \<open>cbs\<close>, nothing is sent, and the call holds the mutex exactly if it waits,
  and then for a thread that has to finish.
\<close>

definition clients_effect :: "'w callback set \<Rightarrow> 'r call \<Rightarrow> 'w quote_server \<Rightarrow> 'w quote_server \<Rightarrow> bool" where
  "clients_effect cbs k s s' \<longleftrightarrow> advances s s' \<and> same_rest s s' \<and> rt_world s' = rt_world s \<and>
     (\<forall>t th. rt_threads s t = None \<longrightarrow> rt_threads s' t = Some th \<longrightarrow>
        (\<exists>ts. \<exists>cb \<in> cbs. th = new_thread ts cb)) \<and>
     (case k of Done _ \<Rightarrow> clients_locked s' = clients_locked s
      | Join t _ \<Rightarrow> clients_locked s' \<and> (\<exists>th. rt_threads s' t = Some th \<and> doomed th))"

lemma clients_effect_done: "clients_effect cbs (Done r) s s"
  by (simp add: clients_effect_def advances_same)

lemma clients_effect_mono: "clients_effect cbs k s s' \<Longrightarrow> cbs \<subseteq> cbs' \<Longrightarrow> clients_effect cbs' k s s'"
  unfolding clients_effect_def by blast

lemma add_client_effect:
  assumes "serving s" and "add_client ts cb s = (k, s')"
  shows "clients_effect {cb} k s s'"
proof -
  have inv: "server_inv s" and np: "\<not> clients_poisoned s" using assms(1) by (simp_all add: serving_def)
  have free: "rt_threads s (rt_next s) = None" using inv by (simp add: server_inv_defs)
  show ?thesis
  proof (cases "clients s (clients_count s)")
    case None
    with assms(2) np free show ?thesis
      by (auto simp: add_client_fresh clients_effect_def same_rest_def
          intro!: advances_upd split: if_splits)
  next
    case (Some c)
    obtain t th where reg: "serves s c t" "rt_threads s t = Some th"
      using registered_thread [OF inv Some] by blast
    from add_client_displacing [OF inv np Some reg] assms(2)
    have k: "k = Join t (Inr (clients_count s))"
      and s': "s' = s\<lparr>rt_threads := (rt_threads s)(rt_next s \<mapsto> new_thread ts cb, t \<mapsto> push_cmd Shutdown th),
         rt_next := Suc (rt_next s), clients_count := clients_count s + 1,
         clients := (clients s)(clients_count s \<mapsto> started_client ts cb (rt_next s)), clients_locked := True\<rparr>"
      by simp_all
    have "advances s s'" using free reg(2) by (auto simp: s' advances_def)
    with k reg(2) show ?thesis by (auto simp: s' clients_effect_def same_rest_def split: if_splits)
  qed
qed

lemma add_client_result:
  assumes "serving s" and "add_client ts cb s = (k, s')"
  shows "k = Done (Inr (clients_count s)) \<or> (\<exists>t. k = Join t (Inr (clients_count s)))"
proof -
  have inv: "server_inv s" and np: "\<not> clients_poisoned s" using assms(1) by (simp_all add: serving_def)
  show ?thesis
  proof (cases "clients s (clients_count s)")
    case None
    with assms(2) np show ?thesis by (simp add: add_client_fresh)
  next
    case (Some c)
    obtain t th where "serves s c t" "rt_threads s t = Some th"
      using registered_thread [OF inv Some] by blast
    with add_client_displacing [OF inv np Some] assms(2) show ?thesis by auto
  qed
qed

lemma remove_client_effect:
  assumes "serving s" and "remove_client cid s = (k, s')"
  shows "clients_effect {} k s s'"
proof (cases rule: removed_call [OF assms(1), of cid, case_names absent registered])
  case absent
  with assms(2) show ?thesis by (auto intro: clients_effect_done)
next
  case (registered c t th s1)
  then have "advances s s1" by (auto intro!: advances_upd)
  with registered assms(2) show ?thesis
    by (auto simp: clients_effect_def same_rest_def split: if_splits)
qed

lemma call_resume_effect:
  assumes "call_resume t s = Some s'"
  shows "advances s s' \<and> same_rest s s' \<and> rt_world s' = rt_world s \<and>
     dom (rt_threads s') = dom (rt_threads s) \<and> \<not> clients_locked s' \<and>
     clients s' = clients s \<and> clients_count s' = clients_count s \<and> rt_finished t s"
proof (cases "rt_threads s t")
  case None
  with assms show ?thesis
    by (auto simp: call_resume_def client_joined_def rt_drop_sender_def same_rest_def
        intro!: advances_same split: if_splits)
next
  case (Some th)
  then have "thread_le th (th\<lparr>th_chan := (th_chan th)\<lparr>ch_sender := False\<rparr>\<rparr>)"
    using visits_own_cong [of "th\<lparr>th_chan := (th_chan th)\<lparr>ch_sender := False\<rparr>\<rparr>" th]
    by (simp add: thread_le_def doomed_def)
  with Some assms show ?thesis
    by (auto simp: call_resume_def client_joined_def rt_drop_sender_def same_rest_def
        intro!: advances_upd split: if_splits)
qed

lemma rt_step_effect:
  assumes "rt_step ser qs p t s = Some (s' :: 'w quote_server)"
  shows "advances s s' \<and> same_rest s s' \<and> dom (rt_threads s') = dom (rt_threads s) \<and>
     clients s' = clients s \<and> clients_count s' = clients_count s \<and> clients_locked s' = clients_locked s"
  using assms unfolding rt_step_eq
  by (auto simp: same_rest_def dom_def intro!: advances_upd dest: thread_le_step split: if_splits)

lemma notified_effect:
  "advances s (notified S s) \<and> same_rest s (notified S s) \<and> dom (rt_threads (notified S s)) = dom (rt_threads s) \<and>
   clients (notified S s) = clients s \<and> clients_count (notified S s) = clients_count s \<and>
   clients_locked (notified S s) = clients_locked s \<and> rt_world (notified S s) = rt_world s"
  by (auto simp: notified_def same_rest_def advances_def dom_def)


section \<open>The background thread\<close>

lemma bg_step_effect:
  assumes inv: "server_inv s" and "distinct (pass_order p)" and "distinct ids"
    and st: "bg_step ext p ids clock t s = Some s'"
  shows "advances s s' \<and> dom (rt_threads s') = dom (rt_threads s) \<and> rt_world s' = rt_world s \<and>
     clients s' = clients s \<and> clients_count s' = clients_count s \<and> clients_locked s' = clients_locked s \<and>
     dom (quotes s') = dom (quotes s) \<and> same_rest (s\<lparr>quotes := quotes s', bg_threads := bg_threads s'\<rparr>) s' \<and>
     (\<exists>pc. bg_threads s' = (bg_threads s)(t \<mapsto> pc) \<and> (pc = BgStopped \<longrightarrow> shutdown_flag s))"
proof -
  have up: "s1 = s\<lparr>quotes := quotes s1\<rparr>" "dom (quotes s1) = dom (quotes s)"
    if "update_attempt ext p e s = (a, s1)" for e a s1
    using update_attempt_frame [OF that] update_attempt_inv [OF inv assms(2) that] by simp_all
  have no: "snd (notify_clients ids s) = s \<or> snd (notify_clients ids s) = notified (set ids) s"
    using notify_loop_notified [OF inv assms(3)] by (simp add: notify_clients_def)
  obtain pc where pc: "bg_threads s t = Some pc"
    using st by (auto simp: bg_step_def split: option.splits)
  show ?thesis
  proof (cases pc)
    case (BgUpdating start)
    obtain a s1 where u: "update_attempt ext p (clock - start) s = (a, s1)" by fastforce
    with st pc BgUpdating have "s' = s1\<lparr>bg_threads := (bg_threads s1)(t \<mapsto> case a of
        Returned _ \<Rightarrow> BgNotifying | Retry \<Rightarrow> BgRetrying start (clock + QUOTE_UPDATE_RETRY_PERIOD_MSEC))\<rparr>"
      by (auto simp: bg_step_def split: attempt.splits)
    moreover obtain m where "s1 = s\<lparr>quotes := m\<rparr>" and "dom m = dom (quotes s)" using up [OF u] by metis
    ultimately show ?thesis
      by (auto simp: same_rest_def intro!: advances_same split: attempt.splits)
  next
    case BgNotifying
    with st pc have "s' = (let s1 = snd (notify_clients ids s) in s1\<lparr>bg_threads := (bg_threads s1)(t \<mapsto> BgChecking)\<rparr>)"
      by (auto simp: bg_step_def split: if_splits)
    moreover obtain s1 where s1: "s1 = snd (notify_clients ids s)" by simp
    moreover have "advances s s1" and "same_rest s s1 \<and> dom (rt_threads s1) = dom (rt_threads s) \<and>
        clients s1 = clients s \<and> clients_count s1 = clients_count s \<and>
        clients_locked s1 = clients_locked s \<and> rt_world s1 = rt_world s"
      unfolding s1 using no notified_effect [of s "set ids"]
      by (elim disjE; simp add: advances_same)+
    ultimately show ?thesis
      by (simp add: Let_def same_rest_def advances_def) (rule exI [of _ BgChecking], simp)
  qed (use st pc in \<open>auto simp: bg_step_def same_rest_def intro!: advances_same split: if_splits\<close>)
qed


section \<open>The connection handler\<close>

text \<open>Whether a round of the handler locks the clients mutex.\<close>

definition locks_clients :: "conn_io \<Rightarrow> read_outcome \<Rightarrow> connection \<Rightarrow> bool" where
  "locks_clients io outcome co = (case outcome of
     ReadOk n line \<Rightarrow>
       (let msg = trim line; parts = split_whitespace msg in
        n \<noteq> 0 \<and>
        (starts_with msg ''STREAM '' \<and> 3 \<le> length parts \<and> parse_socket_addr (parts ! 1) \<noteq> None \<and>
           is_ok (io_bind io) \<or>
         starts_with msg ''STOP'' \<and> co_client_id co \<noteq> None))
   | ReadErr e \<Rightarrow> co_client_id co \<noteq> None \<and>
       (timeout_error e \<longrightarrow> CLIENT_KEEP_ALIVE_SEC < (io_now io - co_last_ping co) div 1000))"

definition joining :: "connection \<Rightarrow> nat option" where
  "joining co = (case co_pc co of Joining t _ \<Rightarrow> Some t | _ \<Rightarrow> None)"

text \<open>
  A round leaves the server alone, or it is one call of \<open>add_client\<close> or \<open>remove_client\<close>
  and waits if that call does.
\<close>

datatype handler_call =
    NoCall
  | Adds "(quote_server_error + u64) call"
  | Removes u64 "(quote_server_error + unit) call"

definition round_effect :: "handler_call \<Rightarrow> connection \<Rightarrow> server \<Rightarrow> connection \<Rightarrow> server \<Rightarrow> bool" where
  "round_effect h co s co' s' = (case h of
     NoCall \<Rightarrow> s' = s \<and> joining co' = None \<and> co_client_id co' = co_client_id co
   | Adds k \<Rightarrow> (\<exists>ts addr. add_client ts (udp_callback addr) s = (k, s')) \<and> (case k of
         Done (Inl _) \<Rightarrow> joining co' = None \<and> co_client_id co' = co_client_id co
       | Done (Inr cid) \<Rightarrow> joining co' = None \<and> co_client_id co' = Some cid
       | Join t r \<Rightarrow> co_pc co' = Joining t (AfterStream r) \<and> co_client_id co' = co_client_id co)
   | Removes cid k \<Rightarrow> co_client_id co = Some cid \<and> remove_client cid s = (k, s') \<and>
       co_client_id co' = None \<and> (case k of
         Done _ \<Rightarrow> joining co' = None
       | Join t r \<Rightarrow> joining co' = Some t \<and> (\<forall>r'. co_pc co' \<noteq> Joining t (AfterStream r'))))"

lemma reply_frame:
  "joining (reply io bs co) = None \<and> co_client_id (reply io bs co) = co_client_id co"
  by (simp add: reply_def next_round_def write_all_def joining_def split: sum.splits)

lemma removed_frames:
  "joining (stop_removed io r co) = None \<and> co_client_id (stop_removed io r co) = co_client_id co"
  "joining (timeout_removed r co) = None \<and> co_client_id (timeout_removed r co) = co_client_id co"
  "joining (failure_removed e r co) = None \<and> co_client_id (failure_removed e r co) = co_client_id co"
  using reply_frame [of io]
  by (auto simp: stop_removed_def timeout_removed_def failure_removed_def joining_def split: sum.splits)

lemma stream_added_frame:
  "joining (stream_added io r co) = None \<and>
   co_client_id (stream_added io r co) = (case r of Inl _ \<Rightarrow> co_client_id co | Inr cid \<Rightarrow> Some cid)"
  using reply_frame [of io] by (auto simp: stream_added_def joining_def split: sum.splits)

lemmas frames [frame_simps] = reply_frame removed_frames stream_added_frame

lemma is_ok_unit: "is_ok r \<longleftrightarrow> r = Inr ()"
  by (cases r) simp_all

lemma handle_stream_effect:
  "handle_stream io msg co s = (co', s') \<Longrightarrow>
   \<exists>h. round_effect h co s co' s' \<and> (h \<noteq> NoCall \<longleftrightarrow>
      3 \<le> length (split_whitespace msg) \<and> parse_socket_addr (split_whitespace msg ! 1) \<noteq> None \<and>
      is_ok (io_bind io))"
proof -
  assume a: "handle_stream io msg co s = (co', s')"
  let ?parts = "split_whitespace msg"
  show ?thesis
  proof (cases "3 \<le> length ?parts \<and> parse_socket_addr (?parts ! 1) \<noteq> None \<and> is_ok (io_bind io)")
    case False
    with a have "s' = s \<and> (\<exists>r. co' = co\<lparr>co_pc := Closed r\<rparr>)"
      by (cases "parse_socket_addr (?parts ! 1)"; cases "io_bind io")
        (auto simp: handle_stream_def Let_def split: if_splits)
    then have "round_effect NoCall co s co' s'" by (auto simp: round_effect_def joining_def)
    with False show ?thesis by blast
  next
    case True
    then have ok: "3 \<le> length ?parts" "io_bind io = Inr ()" and pa: "parse_socket_addr (?parts ! 1) \<noteq> None"
      by (simp_all add: is_ok_unit)
    obtain addr where "parse_socket_addr (?parts ! 1) = Some addr" using pa by blast
    note ok = ok this
    obtain k s1 where k: "add_client (drop 2 ?parts) (udp_callback addr) s = (k, s1)" by fastforce
    have add: "\<exists>ts addr. add_client ts (udp_callback addr) s = (k, s1)" using k by blast
    have "round_effect (Adds k) co s co' s'"
    proof (cases k)
      case (Done r)
      with a ok k have "co' = stream_added io r co" and "s' = s1"
        by (simp_all add: handle_stream_def Let_def)
      with Done add frames(5) [of io r co] show ?thesis
        by (cases r) (simp_all add: round_effect_def)
    next
      case (Join t r)
      with a ok k have "co' = co\<lparr>co_pc := Joining t (AfterStream r)\<rparr>" and "s' = s1"
        by (auto simp: handle_stream_def Let_def)
      with Join add show ?thesis by (simp add: round_effect_def)
    qed
    with True show ?thesis by blast
  qed
qed

text \<open>The handlers that remove the client: they call exactly if there is one (and it is late).\<close>

lemma round_no_call: "joining co' = None \<Longrightarrow> co_client_id co' = co_client_id co \<Longrightarrow> round_effect NoCall co s co' s"
  by (simp add: round_effect_def)

lemma removal_effect:
  assumes "co_client_id co = Some cid" and "remove_client cid s = (k, s')" and "co_client_id co' = None"
    and "case k of Done _ \<Rightarrow> joining co' = None
      | Join t r \<Rightarrow> joining co' = Some t \<and> (\<forall>r'. co_pc co' \<noteq> Joining t (AfterStream r'))"
  shows "\<exists>h. round_effect h co s co' s' \<and> h \<noteq> NoCall"
  using assms by (intro exI [of _ "Removes cid k"]) (simp add: round_effect_def)

lemma handle_stop_effect:
  assumes "handle_stop io co s = (co', s')"
  shows "\<exists>h. round_effect h co s co' s' \<and> (co_client_id co \<noteq> None \<longleftrightarrow> h \<noteq> NoCall)"
proof (cases "co_client_id co")
  case None
  with assms show ?thesis
    by (intro exI [of _ NoCall]) (auto simp: handle_stop_def frames intro!: round_no_call)
next
  case (Some cid)
  obtain k s1 where "remove_client cid s = (k, s1)" by fastforce
  with assms Some removal_effect [of co cid s k s' co'] show ?thesis
    by (cases k) (auto simp: handle_stop_def Let_def frames, auto simp: joining_def)
qed

lemma handle_failure_effect:
  assumes "handle_failure e co s = (co', s')"
  shows "\<exists>h. round_effect h co s co' s' \<and> (co_client_id co \<noteq> None \<longleftrightarrow> h \<noteq> NoCall)"
proof (cases "co_client_id co")
  case None
  with assms show ?thesis
    by (intro exI [of _ NoCall]) (auto simp: handle_failure_def frames intro!: round_no_call)
next
  case (Some cid)
  obtain k s1 where "remove_client cid s = (k, s1)" by fastforce
  with assms Some removal_effect [of co cid s k s' co'] show ?thesis
    by (cases k) (auto simp: handle_failure_def Let_def frames, auto simp: joining_def)
qed

lemma handle_timeout_effect:
  assumes "handle_timeout io co s = (co', s')"
  defines "late \<equiv> CLIENT_KEEP_ALIVE_SEC < (io_now io - co_last_ping co) div 1000"
  shows "\<exists>h. round_effect h co s co' s' \<and> (co_client_id co \<noteq> None \<and> late \<longleftrightarrow> h \<noteq> NoCall)"
proof (cases "co_client_id co \<noteq> None \<and> late")
  case False
  with assms show ?thesis
    by (intro exI [of _ NoCall]) (auto simp: handle_timeout_def joining_def split: if_splits intro!: round_no_call)
next
  case True
  then obtain cid where cid: "co_client_id co = Some cid" by blast
  obtain k s1 where "remove_client cid s = (k, s1)" by fastforce
  with assms cid True removal_effect [of co cid s k s' co'] show ?thesis
    by (cases k) (auto simp: handle_timeout_def Let_def frames, auto simp: joining_def)
qed

text \<open>A line: only \<open>STREAM\<close> and \<open>STOP\<close> call.\<close>

lemma handle_line_effect:
  assumes "handle_line io line co s = (co', s')"
  shows "\<exists>h. round_effect h co s co' s' \<and> (locks_clients io (ReadOk (Suc n) line) co \<longleftrightarrow> h \<noteq> NoCall)"
proof -
  let ?co = "co\<lparr>co_last_ping := io_now io\<rparr>" and ?msg = "trim line"
  have eff: "round_effect h co s co' s'" if "round_effect h ?co s co' s'" for h
    using that by (simp add: round_effect_def split: handler_call.splits call.splits sum.splits)
  consider (stream) "starts_with ?msg ''STREAM ''" "\<not> starts_with ?msg ''STOP''"
    | (stop) "starts_with ?msg ''STOP''" "\<not> starts_with ?msg ''STREAM ''"
    | (other) "\<not> starts_with ?msg ''STREAM ''" "\<not> starts_with ?msg ''STOP''"
    using command_stop by blast
  then show ?thesis
  proof cases
    case stream
    then have "handle_stream io ?msg ?co s = (co', s')"
      using assms command_stream by (simp add: handle_line_def Let_def)
    from handle_stream_effect [OF this] eff stream show ?thesis by (auto simp: locks_clients_def Let_def)
  next
    case stop
    then have "handle_stop io ?co s = (co', s')" using assms command_stop by (simp add: handle_line_def Let_def)
    from handle_stop_effect [OF this] eff stop show ?thesis by (auto simp: locks_clients_def Let_def)
  next
    case other
    then have "round_effect NoCall co s co' s'"
      using assms frames(1) [of io]
      by (auto simp: handle_line_def handle_ping_def handle_invalid_def Let_def round_effect_def joining_def
          split: if_splits)
    with other show ?thesis by (auto simp: locks_clients_def Let_def)
  qed
qed

text \<open>One round of the handler; it locks the clients mutex exactly if it makes a call.\<close>

lemma handle_read_effect:
  assumes "handle_read io outcome co s = (co', s')"
  shows "\<exists>h. round_effect h co s co' s' \<and> (locks_clients io outcome co \<longleftrightarrow> h \<noteq> NoCall)"
proof (cases outcome)
  case (ReadErr e)
  show ?thesis
  proof (cases "timeout_error e")
    case True
    with ReadErr assms have "handle_timeout io co s = (co', s')"
      by (simp add: handle_read_def timeout_error_def)
    from handle_timeout_effect [OF this] True ReadErr show ?thesis by (simp add: locks_clients_def)
  next
    case False
    with ReadErr assms have "handle_failure e co s = (co', s')"
      by (simp add: handle_read_def timeout_error_def)
    from handle_failure_effect [OF this] False ReadErr show ?thesis by (simp add: locks_clients_def)
  qed
next
  case (ReadOk n line)
  show ?thesis
  proof (cases n)
    case 0
    with ReadOk assms show ?thesis
      by (auto simp: handle_read_def locks_clients_def joining_def intro!: exI [of _ NoCall] round_no_call)
  next
    case (Suc m)
    with ReadOk assms have "handle_line io line co s = (co', s')" by (simp add: handle_read_def)
    from handle_line_effect [OF this, of m] show ?thesis by (simp add: ReadOk Suc)
  qed
qed

end
