(* ===== verification/System.thy ===== *)
theory System
  imports Server_Progress
begin

text \<open>
  The server program of \<^verbatim>\<open>src/bins/server/main.rs\<close> as a transition system: the quote server
  with its client threads and background thread, the accept loop, and the handler threads
  of the connections. An action is one atomic step of one thread; which thread moves, what
  the sockets deliver, what is drawn at random, how the hash maps are iterated and how time
  passes are chosen by the action. A step that would block is not enabled.
\<close>

section \<open>Logging\<close>

text \<open>\<^verbatim>\<open>init_logger\<close>, the same in both binaries; only the chosen level is kept.\<close>

datatype level_filter = LevelError | LevelWarn | LevelInfo | LevelDebug | LevelTrace

definition init_logger :: "(string \<Rightarrow> string) \<Rightarrow> string \<Rightarrow> level_filter" where
  "init_logger tbl level =
     (let l = to_lowercase tbl level in
      if l = ''error'' then LevelError
      else if l = ''warn'' then LevelWarn
      else if l = ''info'' then LevelInfo
      else if l = ''debug'' then LevelDebug
      else if l = ''trace'' then LevelTrace
      else LevelInfo)"

text \<open>The filters are ordered by verbosity; a record is written when its level is within the filter.\<close>

primrec verbosity :: "level_filter \<Rightarrow> nat" where
  "verbosity LevelError = 1"
| "verbosity LevelWarn = 2"
| "verbosity LevelInfo = 3"
| "verbosity LevelDebug = 4"
| "verbosity LevelTrace = 5"

lemma verbosity_inj: "verbosity a = verbosity b \<Longrightarrow> a = b"
  by (cases a; cases b) simp_all

instantiation level_filter :: linorder
begin

definition less_eq_level_filter :: "level_filter \<Rightarrow> level_filter \<Rightarrow> bool" where
  "less_eq_level_filter a b \<longleftrightarrow> verbosity a \<le> verbosity b"

definition less_level_filter :: "level_filter \<Rightarrow> level_filter \<Rightarrow> bool" where
  "less_level_filter a b \<longleftrightarrow> verbosity a < verbosity b"

instance
  by standard (auto simp: less_eq_level_filter_def less_level_filter_def intro: verbosity_inj)

end

lemma init_logger_at_least_info:
  "to_lowercase tbl level \<notin> {''error'', ''warn''} \<Longrightarrow> LevelInfo \<le> init_logger tbl level"
  by (simp add: init_logger_def less_eq_level_filter_def Let_def)


section \<open>State\<close>

text \<open>
  Connections are numbered in the order they are accepted; \<open>sys_clock\<close> is in milliseconds;
  \<open>sys_exit\<close> is set when \<^verbatim>\<open>main\<close> returns, which ends every thread of the process.
\<close>

record system =
  sys_server :: server
  sys_conns :: "nat \<rightharpoonup> connection"
  sys_next :: nat
  sys_clock :: nat
  sys_exit :: "cli_error option"

text \<open>
  \<^verbatim>\<open>main\<close> up to its blocking call of \<^verbatim>\<open>TcpServer::start\<close>. \<open>dbg\<close> is the \<^verbatim>\<open>Debug\<close> text of an
  error.
\<close>

definition server_main ::
    "'d externals \<Rightarrow> (tcp_server_error \<Rightarrow> string) \<Rightarrow> (nat \<Rightarrow> f64) \<Rightarrow> (nat \<Rightarrow> clock_reading)
     \<Rightarrow> io_error + file_data \<Rightarrow> io_error + unit \<Rightarrow> nat \<Rightarrow> cli_error + system" where
  "server_main ext dbg rnd clk config bind_res clock =
     (case from_config (x_upper ext) rnd clk [] config of
        Inl e \<Rightarrow> Inl (cli_error_from e)
      | Inr s \<Rightarrow> (case server_start s of
          (Inl e, s) \<Rightarrow> Inl (cli_error_from e)
        | (Inr _, s) \<Rightarrow> (case tcp_bind bind_res of
            Inl e \<Rightarrow> Inl (GeneralError (dbg e))
          | Inr _ \<Rightarrow> Inr \<lparr>sys_server = s, sys_conns = Map.empty, sys_next = 0,
                         sys_clock = clock, sys_exit = None\<rparr>)))"


section \<open>Steps\<close>

datatype 'd action =
    Tick nat
  | ClientThread nat
  | Background nat "'d pass" "u64 list"
  | Accept "io_error + (io_error + unit) \<times> (io_error + unit)"
  | Round nat conn_io "read_event list"
  | Wake nat
  | Resume nat conn_io

text \<open>
  What an action may choose. The iteration over the clients visits every key once, the
  parallel pass visits distinct keys and all of them unless an update fails; a handler acts
  at an instant between its last activity and now.
\<close>

definition orders_ok :: "'d externals \<Rightarrow> 'd pass \<Rightarrow> u64 list \<Rightarrow> server \<Rightarrow> bool" where
  "orders_ok ext p ids s \<longleftrightarrow>
     distinct ids \<and> set ids = dom (clients s) \<and>
     distinct (pass_order p) \<and> set (pass_order p) \<subseteq> dom (quotes s) \<and>
     (case x_lognormal ext (f64_lit 0 0) (volatility (generator s)) of
        Inl _ \<Rightarrow> True
      | Inr ln \<Rightarrow> schedule_ok (pass_draws p ln) (pass_order p) (quotes s))"

definition instant_ok :: "conn_io \<Rightarrow> connection \<Rightarrow> nat \<Rightarrow> bool" where
  "instant_ok io co clock \<longleftrightarrow> co_last_ping co \<le> io_now io \<and> io_now io \<le> clock"

text \<open>A round that has to lock the clients mutex waits while another operation holds it.\<close>

definition round_blocked :: "conn_io \<Rightarrow> read_event list \<Rightarrow> connection \<Rightarrow> server \<Rightarrow> bool" where
  "round_blocked io evs co s \<longleftrightarrow> clients_locked s \<and>
     (case read_line (co_buf co) evs of
        None \<Rightarrow> False
      | Some (outcome, _, _) \<Rightarrow> locks_clients io outcome co)"

definition with_server :: "system \<Rightarrow> server option \<Rightarrow> system option" where
  "with_server S so = map_option (\<lambda>s. S\<lparr>sys_server := s\<rparr>) so"

definition with_conn :: "nat \<Rightarrow> system \<Rightarrow> (connection \<times> server) option \<Rightarrow> system option" where
  "with_conn i S cs =
     map_option (\<lambda>(co, s). S\<lparr>sys_conns := (sys_conns S)(i \<mapsto> co), sys_server := s\<rparr>) cs"

definition exec_action ::
    "'d externals \<Rightarrow> (tcp_server_error \<Rightarrow> string) \<Rightarrow> 'd action \<Rightarrow> system \<Rightarrow> system option" where
  "exec_action ext dbg a S = (let s = sys_server S in case a of
     Tick d \<Rightarrow> Some (S\<lparr>sys_clock := sys_clock S + d\<rparr>)
   | ClientThread t \<Rightarrow> with_server S (rt_step (x_ser ext) (quotes s) (quotes_poisoned s) t s)
   | Background t p ids \<Rightarrow>
       if orders_ok ext p ids s then with_server S (bg_step ext p ids (sys_clock S) t s) else None
   | Accept r \<Rightarrow> (case accept_round (sys_clock S) r of
         Inl e \<Rightarrow> Some (S\<lparr>sys_exit := Some (GeneralError (dbg e))\<rparr>)
       | Inr co \<Rightarrow> Some (S\<lparr>sys_conns := (sys_conns S)(sys_next S \<mapsto> co), sys_next := Suc (sys_next S)\<rparr>))
   | Round i io evs \<Rightarrow> (case sys_conns S i of
         None \<Rightarrow> None
       | Some co \<Rightarrow>
           if instant_ok io co (sys_clock S) \<and> \<not> round_blocked io evs co s
           then with_conn i S (conn_round io evs co s) else None)
   | Wake i \<Rightarrow> (case sys_conns S i of
         None \<Rightarrow> None
       | Some co \<Rightarrow> with_conn i S (map_option (\<lambda>co'. (co', s)) (conn_wake (sys_clock S) co)))
   | Resume i io \<Rightarrow> (case sys_conns S i of
         None \<Rightarrow> None
       | Some co \<Rightarrow> with_conn i S (conn_resume io co s)))"

definition exec :: "'d externals \<Rightarrow> (tcp_server_error \<Rightarrow> string) \<Rightarrow> 'd action \<Rightarrow> system \<Rightarrow> system option" where
  "exec ext dbg a S = (if sys_exit S \<noteq> None then None else exec_action ext dbg a S)"


text \<open>The eight kinds of steps.\<close>

lemma exec_cases:
  assumes "exec ext dbg a S = Some S'"
  obtains (tick) d where "S' = S\<lparr>sys_clock := sys_clock S + d\<rparr>"
  | (thread) t s' where
      "rt_step (x_ser ext) (quotes (sys_server S)) (quotes_poisoned (sys_server S)) t (sys_server S) = Some s'"
      "S' = S\<lparr>sys_server := s'\<rparr>"
  | (background) t p ids s' where "bg_step ext p ids (sys_clock S) t (sys_server S) = Some s'"
      "orders_ok ext p ids (sys_server S)" "S' = S\<lparr>sys_server := s'\<rparr>"
  | (refused) e where "S' = S\<lparr>sys_exit := Some (GeneralError (dbg e))\<rparr>"
  | (accepted) r co where "accept_round (sys_clock S) r = Inr co"
      "S' = S\<lparr>sys_conns := (sys_conns S)(sys_next S \<mapsto> co), sys_next := Suc (sys_next S)\<rparr>"
  | (round) k io evs co co' s' where "a = Round k io evs" "sys_conns S k = Some co"
      "instant_ok io co (sys_clock S)" "\<not> round_blocked io evs co (sys_server S)"
      "conn_round io evs co (sys_server S) = Some (co', s')"
      "S' = S\<lparr>sys_conns := (sys_conns S)(k \<mapsto> co'), sys_server := s'\<rparr>"
  | (wake) k co co' where "sys_conns S k = Some co" "conn_wake (sys_clock S) co = Some co'"
      "S' = S\<lparr>sys_conns := (sys_conns S)(k \<mapsto> co'), sys_server := sys_server S\<rparr>"
  | (resume) k io co co' s' where "sys_conns S k = Some co" "conn_resume io co (sys_server S) = Some (co', s')"
      "S' = S\<lparr>sys_conns := (sys_conns S)(k \<mapsto> co'), sys_server := s'\<rparr>"
proof -
  have st: "exec_action ext dbg a S = Some S'" using assms by (auto simp: exec_def split: if_splits)
  show thesis
  proof (cases a)
    case (Accept r)
    with st refused accepted [of r] show thesis by (auto simp: exec_action_def split: sum.splits)
  next
    case (Round k io evs)
    with st round [OF Round] show thesis
      by (auto simp: exec_action_def with_conn_def Let_def split: option.splits if_splits)
  next
    case (Background t p ids)
    with st background show thesis
      by (auto simp: exec_action_def with_server_def Let_def split: if_splits)
  qed (use st tick thread wake resume in
      \<open>auto simp: exec_action_def with_server_def with_conn_def Let_def split: option.splits\<close>)
qed

definition started :: "'d externals \<Rightarrow> (tcp_server_error \<Rightarrow> string) \<Rightarrow> system \<Rightarrow> bool" where
  "started ext dbg S \<longleftrightarrow>
     (\<exists>rnd clk config bind_res clock. server_main ext dbg rnd clk config bind_res clock = Inr S)"


section \<open>The invariant\<close>

text \<open>
  \<open>background_ok\<close>: the background thread runs, and nothing is poisoned. \<open>threads_wf\<close>: every
  client thread sends to one UDP address. \<open>sent_ok\<close>: every datagram is the JSON text of a
  quote of a configured ticker, sent to the address of a thread subscribed to that ticker.
  \<open>lock_ok\<close>: the clients mutex is held across steps exactly while one handler waits for a
  thread, and that thread has to finish.
\<close>

definition background_ok :: "server \<Rightarrow> bool" where
  "background_ok s \<longleftrightarrow> \<not> quotes_poisoned s \<and> \<not> bg_poisoned s \<and> \<not> shutdown_flag s \<and>
     (\<exists>pc. bg_threads s = [0 \<mapsto> pc] \<and> pc \<noteq> BgStopped)"

definition thread_wf :: "datagrams client_thread \<Rightarrow> bool" where
  "thread_wf th \<longleftrightarrow> visits_own th \<and> (\<exists>addr. th_callback th = udp_callback addr)"

definition threads_wf :: "server \<Rightarrow> bool" where
  "threads_wf s \<longleftrightarrow> (\<forall>t th. rt_threads s t = Some th \<longrightarrow> thread_wf th)"

definition subscribed_to :: "server \<Rightarrow> socket_addr \<Rightarrow> string \<Rightarrow> bool" where
  "subscribed_to s addr k \<longleftrightarrow>
     (\<exists>t th. rt_threads s t = Some th \<and> th_callback th = udp_callback addr \<and> k \<in> set (th_tickers th))"

definition sent_ok :: "(json \<Rightarrow> string) \<Rightarrow> server \<Rightarrow> bool" where
  "sent_ok ser s \<longleftrightarrow> (\<forall>addr m. (addr, m) \<in> set (rt_world s) \<longrightarrow>
     (\<exists>q. m = ser (quote_json q) \<and> ticker q \<in> dom (quotes s) \<and> subscribed_to s addr (ticker q)))"

definition joiner :: "system \<Rightarrow> nat \<Rightarrow> nat \<Rightarrow> bool" where
  "joiner S i t \<longleftrightarrow> (\<exists>co. sys_conns S i = Some co \<and> joining co = Some t)"

definition lock_ok :: "system \<Rightarrow> bool" where
  "lock_ok S \<longleftrightarrow>
     (\<forall>i t. joiner S i t \<longrightarrow> clients_locked (sys_server S) \<and>
        (\<exists>th. rt_threads (sys_server S) t = Some th \<and> doomed th)) \<and>
     (clients_locked (sys_server S) \<longrightarrow> (\<exists>i t. joiner S i t)) \<and>
     (\<forall>i j t u. joiner S i t \<longrightarrow> joiner S j u \<longrightarrow> i = j)"

definition sys_inv :: "(json \<Rightarrow> string) \<Rightarrow> system \<Rightarrow> bool" where
  "sys_inv ser S \<longleftrightarrow> serving (sys_server S) \<and> background_ok (sys_server S) \<and>
     threads_wf (sys_server S) \<and> sent_ok ser (sys_server S) \<and> lock_ok S \<and>
     (\<forall>i \<ge> sys_next S. sys_conns S i = None)"

lemma lock_ok_cong:
  "sys_server S' = sys_server S \<Longrightarrow> (\<And>i t. joiner S' i t = joiner S i t) \<Longrightarrow> lock_ok S' = lock_ok S"
  by (simp add: lock_ok_def)

lemma sys_inv_cong:
  "sys_server S' = sys_server S \<Longrightarrow> sys_conns S' = sys_conns S \<Longrightarrow> sys_next S' = sys_next S \<Longrightarrow>
   sys_inv ser S' = sys_inv ser S"
  using lock_ok_cong [of S' S] by (simp add: sys_inv_def joiner_def)

text \<open>A step that sends nothing and spawns at most threads that send to a UDP address.\<close>

definition silent :: "server \<Rightarrow> server \<Rightarrow> bool" where
  "silent s s' \<longleftrightarrow> advances s s' \<and> rt_world s' = rt_world s \<and> dom (quotes s') = dom (quotes s) \<and>
     (\<forall>t th. rt_threads s t = None \<longrightarrow> rt_threads s' t = Some th \<longrightarrow>
        (\<exists>ts addr. th = new_thread ts (udp_callback addr)))"

lemma silent_same_threads:
  "advances s s' \<Longrightarrow> rt_world s' = rt_world s \<Longrightarrow> dom (quotes s') = dom (quotes s) \<Longrightarrow>
   dom (rt_threads s') = dom (rt_threads s) \<Longrightarrow> silent s s'"
  unfolding silent_def by (metis domIff option.distinct(1))

lemma subscribed_to_advances: "subscribed_to s addr k \<Longrightarrow> advances s s' \<Longrightarrow> subscribed_to s' addr k"
  unfolding subscribed_to_def advances_def thread_le_def by metis

lemma silent_wf:
  assumes "silent s s'" and "threads_wf s"
  shows "threads_wf s'"
  unfolding threads_wf_def
proof (intro allI impI)
  fix t th'
  assume t: "rt_threads s' t = Some th'"
  show "thread_wf th'"
  proof (cases "rt_threads s t")
    case None
    with assms(1) t obtain ts addr where "th' = new_thread ts (udp_callback addr)"
      unfolding silent_def by blast
    then show ?thesis by (auto simp: thread_wf_def visits_own_def new_thread_def)
  next
    case (Some th)
    with assms t have "thread_le th th'" and "thread_wf th"
      by (auto simp: silent_def threads_wf_def dest!: advancesD [of s s' t th])
    then show ?thesis by (auto simp: thread_le_def thread_wf_def)
  qed
qed

lemma silent_sent: "silent s s' \<Longrightarrow> sent_ok ser s \<Longrightarrow> sent_ok ser s'"
  unfolding silent_def sent_ok_def by (metis subscribed_to_advances)

lemma clients_effect_silent:
  "clients_effect cbs k s s' \<Longrightarrow> cbs \<subseteq> range udp_callback \<Longrightarrow> silent s s'"
  unfolding clients_effect_def silent_def same_rest_def by (simp, blast)

lemma clients_effect_background:
  "clients_effect cbs k s s' \<Longrightarrow> background_ok s' = background_ok s"
  by (simp add: clients_effect_def same_rest_def background_ok_def)

section \<open>Preservation\<close>

lemma thread_step_sends:
  assumes "thread_step ser qs p th w = Some (th', w')" and "th_callback th = udp_callback addr"
    and "visits_own th"
  shows "w' = w \<or> (\<exists>k q. k \<in> set (th_tickers th) \<and> qs k = Some q \<and> w' = w @ [(addr, ser (quote_json q))])"
proof (cases "th_pc th")
  case (Notifying ts n)
  with assms show ?thesis
    by (cases ts) (auto simp: thread_step_def udp_callback_def visits_own_def split: option.splits)
qed (use assms(1) in \<open>auto simp: thread_step_def split: prod.splits received.splits client_command.splits\<close>)

lemma rt_step_sys:
  assumes st: "rt_step ser (quotes s) p t s = Some s'"
    and inv: "serving s" "background_ok s" "threads_wf s" "sent_ok ser s"
  shows "serving s' \<and> background_ok s' \<and> threads_wf s' \<and> sent_ok ser s'"
proof -
  note eff = rt_step_effect [OF st]
  obtain th th' w' where th: "rt_threads s t = Some th"
    and ts: "thread_step ser (quotes s) p th (rt_world s) = Some (th', w')" and w: "rt_world s' = w'"
    using st unfolding rt_step_eq by auto
  obtain addr where cb: "th_callback th = udp_callback addr" "visits_own th"
    using inv(3) th by (auto simp: threads_wf_def thread_wf_def)
  have "serving s'" using inv(1) rt_step_inv [OF _ st] eff by (simp add: serving_def same_rest_def)
  moreover have "background_ok s'" using inv(2) eff by (simp add: background_ok_def same_rest_def)
  moreover have "threads_wf s'"
  proof -
    have "silent s (s'\<lparr>rt_world := rt_world s\<rparr>)"
      using eff by (intro silent_same_threads) (simp_all add: same_rest_def advances_def)
    from silent_wf [OF this inv(3)] show ?thesis by (simp add: threads_wf_def)
  qed
  moreover have "sent_ok ser s'"
    unfolding sent_ok_def
  proof (intro allI impI)
    fix a m
    assume m: "(a, m) \<in> set (rt_world s')"
    show "\<exists>q. m = ser (quote_json q) \<and> ticker q \<in> dom (quotes s') \<and> subscribed_to s' a (ticker q)"
    proof (cases "(a, m) \<in> set (rt_world s)")
      case True
      then obtain q where "m = ser (quote_json q)" "ticker q \<in> dom (quotes s)" "subscribed_to s a (ticker q)"
        using inv(4) unfolding sent_ok_def by blast
      with eff subscribed_to_advances [of s a "ticker q" s'] show ?thesis by (auto simp: same_rest_def)
    next
      case False
      with m w thread_step_sends [OF ts cb] obtain k q where k: "k \<in> set (th_tickers th)"
        "quotes s k = Some q" "a = addr" "m = ser (quote_json q)" by auto
      have "ticker q = k" using k(2) inv(1) by (simp add: serving_def server_inv_def quotes_wf_def)
      moreover have "subscribed_to s a k" using th cb k unfolding subscribed_to_def by blast
      ultimately show ?thesis
        using k eff subscribed_to_advances [of s a k s'] by (auto simp: same_rest_def)
    qed
  qed
  ultimately show ?thesis by blast
qed

lemma lock_ok_threads:
  assumes "lock_ok S" and "advances (sys_server S) s'" and "clients_locked s' = clients_locked (sys_server S)"
  shows "lock_ok (S\<lparr>sys_server := s'\<rparr>)"
proof -
  have j: "joiner (S\<lparr>sys_server := s'\<rparr>) i t = joiner S i t" for i t by (simp add: joiner_def)
  have "\<exists>th. rt_threads s' t = Some th \<and> doomed th" if jt: "joiner S i t" for i t
  proof -
    obtain th where "rt_threads (sys_server S) t = Some th" "doomed th"
      using assms(1) jt unfolding lock_ok_def by blast
    then show ?thesis using advancesD [OF assms(2), of t th] by (auto simp: thread_le_def)
  qed
  with assms(1,3) show ?thesis by (simp add: lock_ok_def j)
qed

lemma bg_step_sys:
  assumes st: "bg_step ext p ids clock t s = Some s'" and ord: "orders_ok ext p ids s"
    and inv: "serving s" "background_ok s" "threads_wf s" "sent_ok ser s"
  shows "serving s' \<and> background_ok s' \<and> threads_wf s' \<and> sent_ok ser s' \<and> advances s s' \<and>
     clients_locked s' = clients_locked s"
proof -
  have d: "distinct (pass_order p)" "distinct ids" using ord by (auto simp: orders_ok_def)
  have i: "server_inv s" using inv(1) by (simp add: serving_def)
  note eff = bg_step_effect [OF i d st]
  then have sil: "silent s s'" by (intro silent_same_threads) simp_all
  have "serving s'"
    using bg_step_inv [OF i d st] eff inv(1) by (simp add: serving_def same_rest_def)
  moreover have "background_ok s'"
  proof -
    obtain pc where bg: "bg_threads s' = (bg_threads s)(t \<mapsto> pc)" "pc \<noteq> BgStopped"
      using eff inv(2) by (auto simp: background_ok_def)
    have "bg_threads s t \<noteq> None" using st by (auto simp: bg_step_def split: option.splits)
    then have "t = 0" using inv(2) by (auto simp: background_ok_def split: if_splits)
    with bg eff inv(2) show ?thesis by (auto simp: background_ok_def same_rest_def)
  qed
  ultimately show ?thesis
    using eff silent_wf [OF sil inv(3)] silent_sent [OF sil inv(4)] by blast
qed

lemma serving_adds: "serving s \<Longrightarrow> add_client ts cb s = (k, s') \<Longrightarrow> serving s'"
  using clients_registry.ok_add [of s "(ts, cb)"] by (simp add: add_sub_def)

lemma serving_removes: "serving s \<Longrightarrow> remove_client cid s = (k, s') \<Longrightarrow> serving s'"
  using clients_registry.ok_remove [of s cid] by (simp add: remove_sub_def)

lemma joining_Some: "joining co = Some t \<longleftrightarrow> (\<exists>a. co_pc co = Joining t a)"
  by (cases "co_pc co") (simp_all add: joining_def)

lemma joining_eq: "co_pc co = Joining t a \<Longrightarrow> joining co = Some t"
  by (simp add: joining_def)

text \<open>The call a round makes, seen from the server.\<close>

lemma round_effect_sys:
  assumes eff: "round_effect h co s co' s'" and inv: "serving s"
  shows "serving s' \<and> silent s s' \<and> background_ok s' = background_ok s \<and>
     (case joining co' of
        None \<Rightarrow> clients_locked s' = clients_locked s
      | Some t \<Rightarrow> h \<noteq> NoCall \<and> clients_locked s' \<and> (\<exists>th. rt_threads s' t = Some th \<and> doomed th))"
proof (cases h)
  case NoCall
  with eff inv show ?thesis by (auto simp: round_effect_def silent_def advances_same)
next
  case (Adds k)
  then obtain ts addr where a: "add_client ts (udp_callback addr) s = (k, s')"
    using eff by (auto simp: round_effect_def)
  note e = add_client_effect [OF inv a]
  have "silent s s'" and "background_ok s' = background_ok s"
    using clients_effect_silent [OF e] clients_effect_background [OF e] by auto
  moreover have "case joining co' of
        None \<Rightarrow> clients_locked s' = clients_locked s
      | Some t \<Rightarrow> h \<noteq> NoCall \<and> clients_locked s' \<and> (\<exists>th. rt_threads s' t = Some th \<and> doomed th)"
    using eff e Adds by (auto simp: round_effect_def clients_effect_def joining_eq split: call.splits sum.splits)
  ultimately show ?thesis using serving_adds [OF inv a] by blast
next
  case (Removes cid k)
  then have a: "remove_client cid s = (k, s')" using eff by (simp add: round_effect_def)
  note e = remove_client_effect [OF inv a]
  have "silent s s'" and "background_ok s' = background_ok s"
    using clients_effect_silent [OF e] clients_effect_background [OF e] by auto
  moreover have "case joining co' of
        None \<Rightarrow> clients_locked s' = clients_locked s
      | Some t \<Rightarrow> h \<noteq> NoCall \<and> clients_locked s' \<and> (\<exists>th. rt_threads s' t = Some th \<and> doomed th)"
    using eff e Removes by (auto simp: round_effect_def clients_effect_def split: call.splits)
  ultimately show ?thesis using serving_removes [OF inv a] by blast
qed

lemma conn_round_cases:
  assumes "conn_round io evs co s = Some (co', s')"
  obtains outcome buf where "co_pc co = Reading" and "read_line (co_buf co) evs = Some (outcome, buf, [])"
    and "handle_read io outcome (co\<lparr>co_buf := buf\<rparr>) s = (co', s')"
  using assms by (auto simp: conn_round_def split: if_splits option.splits prod.splits list.splits)

lemma conn_round_effect:
  assumes "conn_round io evs co s = Some (co', s')"
  shows "\<exists>h. round_effect h co s co' s' \<and> (clients_locked s \<and> \<not> round_blocked io evs co s \<longrightarrow> h = NoCall)"
proof -
  obtain outcome buf where r: "read_line (co_buf co) evs = Some (outcome, buf, [])"
    and h: "handle_read io outcome (co\<lparr>co_buf := buf\<rparr>) s = (co', s')"
    using conn_round_cases [OF assms] by blast
  obtain h where e: "round_effect h (co\<lparr>co_buf := buf\<rparr>) s co' s'"
    and l: "locks_clients io outcome (co\<lparr>co_buf := buf\<rparr>) \<longleftrightarrow> h \<noteq> NoCall"
    using handle_read_effect [OF h] by blast
  have "round_effect h co s co' s'"
    using e by (simp add: round_effect_def split: handler_call.splits call.splits sum.splits)
  moreover have "locks_clients io outcome (co\<lparr>co_buf := buf\<rparr>) = locks_clients io outcome co"
    by (cases outcome) (simp_all add: locks_clients_def)
  ultimately show ?thesis using l r by (auto simp: round_blocked_def)
qed

text \<open>One connection changes, and with it perhaps who holds the mutex.\<close>

lemma lock_ok_conn:
  assumes "lock_ok S" and co: "sys_conns S i = Some co" and adv: "advances (sys_server S) s'"
    and "case joining co' of
        None \<Rightarrow> clients_locked s' = (clients_locked (sys_server S) \<and> joining co = None)
      | Some t \<Rightarrow> \<not> clients_locked (sys_server S) \<and> clients_locked s' \<and>
          (\<exists>th. rt_threads s' t = Some th \<and> doomed th)"
  shows "lock_ok (S\<lparr>sys_conns := (sys_conns S)(i \<mapsto> co'), sys_server := s'\<rparr>)" (is "lock_ok ?S")
proof -
  have j: "joiner ?S k t \<longleftrightarrow> (if k = i then joining co' = Some t else joiner S k t)" for k t
    by (simp add: joiner_def)
  have ji: "joiner S i t \<longleftrightarrow> joining co = Some t" for t by (simp add: joiner_def co)
  have d: "\<exists>th. rt_threads s' t = Some th \<and> doomed th" if jt: "joiner S k t" for k t
  proof -
    obtain th where "rt_threads (sys_server S) t = Some th" "doomed th"
      using assms(1) jt unfolding lock_ok_def by blast
    then show ?thesis using advancesD [OF adv, of t th] by (auto simp: thread_le_def)
  qed
  have free: "\<not> joiner S k t" if "\<not> clients_locked (sys_server S)" for k t
    using assms(1) that unfolding lock_ok_def by blast
  have one: "joiner S k t \<Longrightarrow> joiner S l u \<Longrightarrow> k = l" for k l t u
    using assms(1) unfolding lock_ok_def by blast
  have held: "clients_locked (sys_server S) \<Longrightarrow> \<exists>k t. joiner S k t"
    using assms(1) unfolding lock_ok_def by blast
  have lk: "joiner S k t \<Longrightarrow> clients_locked (sys_server S)" for k t using free by blast
  show ?thesis
  proof (cases "joining co'")
    case None
    then have l: "clients_locked s' = (clients_locked (sys_server S) \<and> joining co = None)"
      using assms(4) by simp
    have "\<exists>k t. joiner ?S k t" if "clients_locked s'"
      using held that l ji unfolding j None by (metis option.distinct(1))
    moreover have "clients_locked s'" if "joiner ?S k t" for k t
      using that l lk [of k t] one [of k t i] ji unfolding j None
      by (auto split: if_splits)
    moreover have "\<exists>th. rt_threads s' t = Some th \<and> doomed th" if "joiner ?S k t" for k t
      using d [of k t] that unfolding j None by (auto split: if_splits)
    moreover have "k = m" if "joiner ?S k t" "joiner ?S m u" for k m t u
      using that one [of k t m u] unfolding j None by (auto split: if_splits)
    ultimately show ?thesis unfolding lock_ok_def by simp
  next
    case (Some t)
    then have f: "\<not> clients_locked (sys_server S)" "clients_locked s'"
      "\<exists>th. rt_threads s' t = Some th \<and> doomed th" using assms(4) by auto
    have "joiner ?S k u \<longleftrightarrow> k = i \<and> u = t" for k u
      using free [OF f(1)] Some unfolding j by auto
    with f show ?thesis unfolding lock_ok_def by auto
  qed
qed

lemma joining_reading: "co_pc co = Reading \<Longrightarrow> joining co = None"
  by (simp add: joining_def)

lemma conn_round_reading: "conn_round io evs co s = Some r \<Longrightarrow> co_pc co = Reading"
  by (simp add: conn_round_def split: if_splits)

lemma conn_wake_joining:
  "conn_wake clock co = Some co' \<Longrightarrow>
   joining co = None \<and> joining co' = None \<and> co_client_id co' = co_client_id co \<and> co_pc co' = Reading"
  by (auto simp: conn_wake_def joining_def split: conn_pc.splits if_splits)

lemma run_after_frame:
  "joining (run_after io a co) = None \<and>
   co_client_id (run_after io a co) =
     (case a of AfterStream (Inr cid) \<Rightarrow> Some cid | _ \<Rightarrow> co_client_id co)"
  using frames by (auto simp: run_after_def split: after.splits sum.splits)

lemma conn_resume_effect:
  assumes "conn_resume io co s = Some (co', s')"
  obtains t a where "co_pc co = Joining t a" and "co' = run_after io a co" and "call_resume t s = Some s'"
  using assms by (auto simp: conn_resume_def split: conn_pc.splits option.splits)

lemma call_resume_sys:
  assumes st: "call_resume t s = Some s'" and inv: "serving s"
  shows "serving s' \<and> silent s s' \<and> background_ok s' = background_ok s \<and> \<not> clients_locked s'"
proof -
  note eff = call_resume_effect [OF st]
  have "silent s s'" using eff by (intro silent_same_threads) (simp_all add: same_rest_def)
  moreover have "serving s'"
    using inv call_resume_inv [OF _ st] eff by (simp add: serving_def same_rest_def)
  ultimately show ?thesis using eff by (simp add: same_rest_def background_ok_def)
qed

lemma exec_inv:
  assumes inv: "sys_inv (x_ser ext) S" and st: "exec ext dbg a S = Some S'"
  shows "sys_inv (x_ser ext) S'"
proof -
  let ?s = "sys_server S"
  have i: "serving ?s" "background_ok ?s" "threads_wf ?s" "sent_ok (x_ser ext) ?s" "lock_ok S"
    and fresh: "\<And>i. sys_next S \<le> i \<Longrightarrow> sys_conns S i = None"
    using inv by (simp_all add: sys_inv_def)
  have adv: "advances s s'" if "silent s s'" for s s' :: server using that by (simp add: silent_def)
  have below: "k < sys_next S" if "sys_conns S k = Some co" for k co
    using that fresh [of k] by (cases "sys_next S \<le> k") auto
  from st show ?thesis
  proof (cases rule: exec_cases)
    case (thread t s')
    have "lock_ok S'"
      unfolding thread(2) using rt_step_effect [OF thread(1)] by (intro lock_ok_threads i(5)) auto
    with rt_step_sys [OF thread(1) i(1,2,3,4)] show ?thesis by (simp add: sys_inv_def thread(2) fresh)
  next
    case (background t p ids s')
    note b = bg_step_sys [OF background(1,2) i(1,2,3,4)]
    then have "lock_ok S'" unfolding background(3) by (intro lock_ok_threads i(5)) auto
    with b show ?thesis by (simp add: sys_inv_def background(3) fresh)
  next
    case (accepted r co)
    then have "joining co = None"
      by (auto simp: accept_round_def open_connection_def joining_def split: sum.splits)
    then have "joiner S' k t = joiner S k t" for k t
      using accepted(2) fresh [of "sys_next S"] by (auto simp: joiner_def)
    with i fresh show ?thesis by (simp add: sys_inv_def lock_ok_def accepted(2))
  next
    case (round k io evs co co' s')
    obtain h where h: "round_effect h co ?s co' s'" and l: "clients_locked ?s \<longrightarrow> h = NoCall"
      using conn_round_effect [OF round(5)] round(4) by blast
    note e = round_effect_sys [OF h i(1)]
    have "lock_ok S'"
      unfolding round(6) using e l joining_reading [OF conn_round_reading [OF round(5)]]
      by (intro lock_ok_conn [OF i(5) round(2)]) (auto simp: adv split: option.splits)
    with e i(2) silent_wf [OF _ i(3), of s'] silent_sent [OF _ i(4), of s'] below [OF round(2)]
    show ?thesis by (simp add: sys_inv_def round(6) fresh)
  next
    case (wake k co co')
    have "lock_ok S'"
      unfolding wake(3) using conn_wake_joining [OF wake(2)]
      by (intro lock_ok_conn [OF i(5) wake(1)]) (auto simp: advances_same)
    with i fresh below [OF wake(1)] show ?thesis by (simp add: sys_inv_def wake(3))
  next
    case (resume k io co co' s')
    obtain t af where pc: "co_pc co = Joining t af" and co': "co' = run_after io af co"
      and cr: "call_resume t ?s = Some s'" using conn_resume_effect [OF resume(2)] by blast
    note e = call_resume_sys [OF cr i(1)]
    have "lock_ok S'"
      unfolding resume(3) using e run_after_frame [of io af co] joining_eq [OF pc]
      by (intro lock_ok_conn [OF i(5) resume(1)]) (auto simp: adv co')
    with e i(2) silent_wf [OF _ i(3), of s'] silent_sent [OF _ i(4), of s'] below [OF resume(1)]
    show ?thesis by (simp add: sys_inv_def resume(3) fresh)
  qed (use inv sys_inv_cong [of S' S] in simp_all)
qed

text \<open>The mutex stays free if the connection an action was about does not wait afterwards.\<close>

lemma free_after_round:
  assumes "sys_inv ser S" and "\<not> clients_locked (sys_server S)" and "sys_inv ser S'"
    and "sys_conns S' = (sys_conns S)(i \<mapsto> co)" and "joining co = None"
  shows "\<not> clients_locked (sys_server S')"
proof -
  have "\<not> joiner S j t" for j t using assms(1,2) unfolding sys_inv_def lock_ok_def by blast
  then have "\<not> joiner S' j t" for j t using assms(4,5) by (auto simp: joiner_def)
  then show ?thesis using assms(3) unfolding sys_inv_def lock_ok_def by blast
qed

lemma server_main_cases:
  assumes "server_main ext dbg rnd clk config bind_res clock = Inr S"
  obtains f m n where "load_tickers (x_upper ext) rnd clk (file_lines f) Map.empty 0 = Inr (m, n)"
    and "S = \<lparr>sys_server = snd (server_start (initial_server m \<lparr>volatility = VOLATILITY\<rparr> [])),
      sys_conns = Map.empty, sys_next = 0, sys_clock = clock, sys_exit = None\<rparr>"
proof -
  obtain s s' where s: "from_config (x_upper ext) rnd clk [] config = Inr s"
    and s': "server_start s = (Inr (), s')"
    and S: "S = \<lparr>sys_server = s', sys_conns = Map.empty, sys_next = 0, sys_clock = clock, sys_exit = None\<rparr>"
    using assms by (auto simp: server_main_def split: sum.splits prod.splits)
  obtain f where "config = Inr f" using s by (auto simp: from_config_def split: sum.splits)
  with s obtain m n where l: "load_tickers (x_upper ext) rnd clk (file_lines f) Map.empty 0 = Inr (m, n)"
    and init: "s = initial_server m \<lparr>volatility = VOLATILITY\<rparr> []"
    by (auto simp: from_config_def volatility_ok split: sum.splits prod.splits)
  show thesis using that [OF l] S s' init by simp
qed

lemma server_main_inv:
  assumes "server_main ext dbg rnd clk config bind_res clock = Inr S"
  shows "sys_inv ser S"
proof (cases rule: server_main_cases [OF assms, case_names main])
  case (main f m n)
  have "quotes_wf m" using load_tickers_ok [OF main(1)] by (simp add: quotes_wf_def)
  then have "server_inv (snd (server_start (initial_server m \<lparr>volatility = VOLATILITY\<rparr> [])) :: server)"
    by (intro server_start_inv initial_server_inv)
  then show ?thesis
    by (auto simp: main(2) sys_inv_def serving_def background_ok_def threads_wf_def sent_ok_def lock_ok_def
        joiner_def server_start_def initial_server_def)
qed

text \<open>The tickers are upper-case forms.\<close>

lemma server_main_keys:
  assumes "server_main ext dbg rnd clk config bind_res clock = Inr S" and "k \<in> dom (quotes (sys_server S))"
  shows "\<exists>l. k = to_uppercase (x_upper ext) l"
proof (cases rule: server_main_cases [OF assms(1), case_names main])
  case (main f m n)
  then have "quotes (sys_server S) = m" by (simp add: server_start_def initial_server_def)
  with assms(2) load_tickers_ok [OF main(1)] show ?thesis by auto
qed

end
