(* ===== verification/Example_Run.thy ===== *)
theory Example_Run
  imports System
begin

text \<open>
  A concrete run of the server program, from the configuration file with one ticker: a
  connection is accepted and subscribes, the background thread updates and is about to
  notify; or the connection sends \<open>STOP\<close>. The witnesses of the system's properties
  start from the states of this run.
\<close>

section \<open>Start\<close>

definition example_ext :: "unit externals" where
  "example_ext = \<lparr>x_ser = (\<lambda>_. ''json''), x_lognormal = (\<lambda>_ _. Inr ()), 
     x_upper = (\<lambda>c. if has_lower c \<or> \<not> utf8_valid c then [] else c)\<rparr>"

lemma example_upper_no_lower: "\<not> has_lower (x_upper example_ext c)"
  by (simp add: example_ext_def has_lower_def)

lemma example_upper_valid: "utf8_valid (x_upper example_ext c)"
  by (simp add: example_ext_def utf8_valid_def)

definition example_dbg :: "tcp_server_error \<Rightarrow> string" where
  "example_dbg e = show_tcp_error e"

definition example_config :: file_data where
  "example_config = \<lparr>fd_bytes = ''AAPL'', fd_error = None\<rparr>"

definition running :: "server \<Rightarrow> server" where
  "running s = s\<lparr>bg_thread := Some 0, bg_threads := [0 \<mapsto> BgChecking], bg_next := 1\<rparr>"

definition example_start :: system where
  "example_start = \<lparr>sys_server = running (initial_server
       [''AAPL'' \<mapsto> new_quote (f64_lit 0 0) (Inr 0) ''AAPL''] \<lparr>volatility = VOLATILITY\<rparr> []),
     sys_conns = Map.empty, sys_next = 0, sys_clock = 0, sys_exit = None\<rparr>"

lemma example_lines: "file_lines example_config = [Inr ''AAPL'']"
proof -
  have "check_utf8 ''AAPL'' = Inr ''AAPL''"
    by (simp add: check_utf8_def utf8_valid_ascii is_ascii_def byte_of_def)
  then show ?thesis
    by (simp add: file_lines_def example_config_def newline_def split_on_no_sep)
qed

lemma example_upper: "to_uppercase tbl (trim ''AAPL'') = ''AAPL''"
proof -
  have "trim ''AAPL'' = ''AAPL''"
    using trim_ascii [of "''AAPL''"] by (simp add: is_ascii_def is_space_iff byte_of_def trim_end_def)
  then show ?thesis
    by (simp add: to_uppercase_def map_case_ascii is_ascii_def byte_of_def ascii_upper_def)
qed

lemma example_started:
  "server_main example_ext example_dbg (\<lambda>_. f64_lit 0 0) (\<lambda>_. Inr 0) (Inr example_config) (Inr ()) 0 =
   Inr example_start"
  by (simp add: server_main_def from_config_def example_lines example_upper Let_def volatility_ok
      server_start_def tcp_bind_def example_start_def running_def initial_server_def)

lemma example_reachable: "reachable (started example_ext example_dbg) (exec example_ext example_dbg) example_start"
  unfolding started_def by (rule reachable.initial) (intro exI, rule example_started)



section \<open>A subscription\<close>

definition example_addr :: socket_addr where
  "example_addr = SocketV4 127 0 0 1 50000"

definition example_line :: "string list \<Rightarrow> string" where
  "example_line ts = stream_line (show_v4 127 0 0 1 50000) ts"

definition example_conn :: connection where
  "example_conn = fresh_connection\<lparr>co_client_id := Some 0, co_written := ''STREAM OK'' @ [newline]\<rparr>"

definition subscribed_server0 :: "string list \<Rightarrow> server" where
  "subscribed_server0 ts = (sys_server example_start)
     \<lparr>rt_threads := [0 \<mapsto> new_thread ts (udp_callback example_addr)], rt_next := 1,
      clients_count := 1, clients := [0 \<mapsto> started_client ts (udp_callback example_addr) 0]\<rparr>"

definition example_subscription :: "string list \<Rightarrow> system" where
  "example_subscription ts = example_start\<lparr>sys_server := (subscribed_server0 ts),
     sys_conns := [0 \<mapsto> example_conn], sys_next := 1\<rparr>"

lemma example_server_fields:
  "rt_threads (sys_server example_start) = Map.empty" "rt_next (sys_server example_start) = 0"
  "clients (sys_server example_start) = Map.empty" "clients_count (sys_server example_start) = 0"
  "\<not> clients_poisoned (sys_server example_start)" "\<not> clients_locked (sys_server example_start)"
  "bg_threads (sys_server example_start) = [0 \<mapsto> BgChecking]" "\<not> shutdown_flag (sys_server example_start)"
  "dom (quotes (sys_server example_start)) = {''AAPL''}" "rt_world (sys_server example_start) = []"
  "\<not> quotes_poisoned (sys_server example_start)"
  by (simp_all add: example_start_def running_def initial_server_def)

definition tickers_ok :: "string list \<Rightarrow> bool" where
  "tickers_ok ts \<longleftrightarrow> ts \<noteq> [] \<and> list_all word ts"

lemma tickers_ok_examples: "tickers_ok [''AAPL'']" "tickers_ok [''aapl'']"
  by (simp_all add: tickers_ok_def word_def is_ascii_def is_space_iff byte_of_def)

lemma example_line_word: "word (show_v4 127 0 0 1 50000)"
  by (rule show_v4_word)

lemma example_line_bytes:
  assumes "tickers_ok ts"
  shows "newline \<notin> set (example_line ts)" and "utf8_valid (example_line ts @ [newline])"
proof -
  have ts: "list_all word ts" using assms by (simp add: tickers_ok_def)
  have a: "ascii (example_line ts)"
    using stream_line_words(1) [OF example_line_word ts] by (simp add: example_line_def)
  have w: "newline \<notin> set w" if "word w" for w
    using that by (auto simp: word_def newline_def)
  have "\<forall>t \<in> set ts. newline \<notin> set t" using ts w by (auto simp: list_all_iff)
  with w [OF example_line_word] show "newline \<notin> set (example_line ts)"
    by (auto simp: example_line_def stream_line_def newline_def)
  show "utf8_valid (example_line ts @ [newline])"
    using a by (intro utf8_valid_ascii) (simp add: newline_def is_ascii_def byte_of_def)
qed

lemma exec_read:
  assumes "sys_exit S = None" and "sys_conns S i = Some co" and "co_pc co = Reading" and "co_buf co = []"
    and "newline \<notin> set l" and "utf8_valid (l @ [newline])" and "instant_ok io co (sys_clock S)"
    and "\<not> clients_locked (sys_server S)"
    and "handle_read io (ReadOk (Suc (length l)) (l @ [newline])) co (sys_server S) = (co', s')"
  shows "exec ext dbg (Round i io [Data (l @ [newline])]) S =
     Some (S\<lparr>sys_conns := (sys_conns S)(i \<mapsto> co'), sys_server := s'\<rparr>)"
proof -
  have co: "co\<lparr>co_buf := []\<rparr> = co" using assms(4) by (simp add: assms(4) [symmetric])
  have "read_line (co_buf co) [Data (l @ [newline])] =
      Some (ReadOk (Suc (length l)) (l @ [newline]), [], [])"
    using read_line_whole [OF assms(5)] assms(4,6) by (simp add: line_outcome_def)
  from conn_round_eq [OF assms(3) this, of io "sys_server S", unfolded co] assms(9)
  have "conn_round io [Data (l @ [newline])] co (sys_server S) = Some (co', s')" by simp
  with assms(1,2,7,8) show ?thesis
    by (simp add: exec_def exec_action_def with_conn_def round_blocked_def Let_def)
qed

lemma example_run_subscription:
  assumes "tickers_ok ts"
  shows "run_steps (exec example_ext example_dbg)
     [Accept (Inr (Inr (), Inr ())), Round 0 (good_io 0) [Data ((example_line ts) @ [newline])]] example_start =
   Some (example_subscription ts)"
proof -
  let ?S = "example_start\<lparr>sys_conns := [0 \<mapsto> fresh_connection], sys_next := 1\<rparr>"
  have "exec example_ext example_dbg (Accept (Inr (Inr (), Inr ()))) example_start = Some ?S"
    by (simp add: exec_def exec_action_def example_start_def accept_round_def fresh_connection_def Let_def)
  moreover have "exec example_ext example_dbg (Round 0 (good_io 0) [Data ((example_line ts) @ [newline])]) ?S =
      Some (?S\<lparr>sys_conns := (sys_conns ?S)(0 \<mapsto> example_conn), sys_server := (subscribed_server0 ts)\<rparr>)"
  proof (rule exec_read)
    show "handle_read (good_io 0) (ReadOk (Suc (length (example_line ts))) ((example_line ts) @ [newline])) fresh_connection
        (sys_server ?S) = (example_conn, (subscribed_server0 ts))"
      unfolding example_line_def
      using example_server_fields assms
      by (subst stream_line_read)
        (simp_all add: good_io_def example_conn_def fresh_connection_def open_connection_def add_client_fresh
          subscribed_server0_def example_addr_def tickers_ok_def)
  qed (simp_all add: example_start_def fresh_connection_def open_connection_def instant_ok_def good_io_def
      example_line_bytes assms running_def initial_server_def)
  ultimately show ?thesis by (simp add: example_subscription_def)
qed

lemma example_subscription_reachable:
  "tickers_ok ts \<Longrightarrow> reachable (started example_ext example_dbg) (exec example_ext example_dbg) (example_subscription ts)"
  using run_steps_reachable [OF example_run_subscription example_reachable] .


section \<open>Stopping it\<close>

definition example_stopping :: "string list \<Rightarrow> system" where
  "example_stopping ts = (example_subscription ts)\<lparr>
     sys_server := (subscribed_server0 ts)\<lparr>clients := Map.empty,
       rt_threads := [0 \<mapsto> push_cmd Shutdown (new_thread ts (udp_callback example_addr))],
       clients_locked := True\<rparr>,
     sys_conns := [0 \<mapsto> example_conn\<lparr>co_client_id := None, co_pc := Joining 0 (AfterStop (Inr ()))\<rparr>]\<rparr>"

lemma example_conn_fields:
  "co_client_id example_conn = Some 0" "co_pc example_conn = Reading" "co_buf example_conn = []"
  "co_last_ping example_conn = 0"
  by (simp_all add: example_conn_def fresh_connection_def open_connection_def)

lemma subscribed_server0_fields:
  "rt_threads (subscribed_server0 ts) = [0 \<mapsto> new_thread ts (udp_callback example_addr)]"
  "clients (subscribed_server0 ts) = [0 \<mapsto> started_client ts (udp_callback example_addr) 0]"
  "clients_count (subscribed_server0 ts) = 1"
  "\<not> clients_poisoned (subscribed_server0 ts)" "\<not> clients_locked (subscribed_server0 ts)"
  "bg_threads (subscribed_server0 ts) = [0 \<mapsto> BgChecking]" "\<not> shutdown_flag (subscribed_server0 ts)"
  "dom (quotes (subscribed_server0 ts)) = {''AAPL''}" "\<not> quotes_poisoned (subscribed_server0 ts)"
  "rt_next (subscribed_server0 ts) = 1" "rt_world (subscribed_server0 ts) = []"
  using example_server_fields by (simp_all add: subscribed_server0_def)

lemma example_run_stopping:
  "exec example_ext example_dbg (Round 0 (good_io 0) [Data (''STOP'' @ [newline])]) (example_subscription ts) =
   Some (example_stopping ts)"
proof -
  have "serves (subscribed_server0 ts) (started_client ts (udp_callback example_addr) 0) 0"
    by (simp add: serves_def subscribed_server0_fields live_def new_thread_def started_client_def chan_new_def)
  from remove_client_registered [OF subscribed_server0_fields(4) _ this, of 0]
  have rm: "remove_client 0 (subscribed_server0 ts) = (Join 0 (Inr ()), sys_server (example_stopping ts))"
    by (simp add: subscribed_server0_fields example_stopping_def)
  have "exec example_ext example_dbg (Round 0 (good_io 0) [Data (''STOP'' @ [newline])]) (example_subscription ts) =
    Some ((example_subscription ts)\<lparr>sys_conns := (sys_conns (example_subscription ts))
      (0 \<mapsto> example_conn\<lparr>co_client_id := None, co_pc := Joining 0 (AfterStop (Inr ()))\<rparr>),
      sys_server := sys_server (example_stopping ts)\<rparr>)"
  proof (rule exec_read)
    have lp: "example_conn\<lparr>co_last_ping := 0\<rparr> = example_conn"
      using example_conn_fields(4) by (simp add: example_conn_fields(4) [symmetric])
    show "handle_read (good_io 0) (ReadOk (Suc (length ''STOP'')) (''STOP'' @ [newline])) example_conn
       (sys_server (example_subscription ts)) =
       (example_conn\<lparr>co_client_id := None, co_pc := Joining 0 (AfterStop (Inr ()))\<rparr>, sys_server (example_stopping ts))"
      using rm example_conn_fields(1)
      by (simp add: handle_read_def handle_line_def handle_stop_def Let_def trim_stop [simplified]
          starts_with_def example_subscription_def good_io_def lp)
  next
    show "utf8_valid (''STOP'' @ [newline])"
      by (rule utf8_valid_ascii) (simp add: is_ascii_def byte_of_def newline_def)
  qed (simp_all add: example_subscription_def example_start_def example_conn_fields instant_ok_def
      good_io_def newline_def subscribed_server0_fields)
  then show ?thesis by (simp add: example_stopping_def example_subscription_def)
qed

lemma example_stopping_reachable:
  "tickers_ok ts \<Longrightarrow> reachable (started example_ext example_dbg) (exec example_ext example_dbg) (example_stopping ts)"
  using reachable.successor [OF example_subscription_reachable example_run_stopping] .

lemma example_stopping_fields:
  "sys_exit (example_stopping ts) = None" "clients_locked (sys_server (example_stopping ts))"
  "joiner (example_stopping ts) 0 0"
  by (simp_all add: example_stopping_def example_subscription_def example_start_def joiner_def joining_def)

lemma example_stopping_steps:
  "\<exists>s. rt_finished 0 s \<and> exec example_ext example_dbg (ClientThread 0) (example_stopping ts) =
     Some ((example_stopping ts)\<lparr>sys_server := s\<rparr>)"
proof -
  have "\<exists>s. rt_step ser qs p 0 (sys_server (example_stopping ts)) = Some s \<and> rt_finished 0 s" for ser qs p
    by (simp add: rt_step_def thread_step_def chan_recv_def new_thread_def chan_new_def thread_finish_def
        chan_drop_receiver_def rt_finished_def push_cmd_def example_stopping_def)
  then obtain s where s: "rt_step (x_ser example_ext) (quotes (sys_server (example_stopping ts)))
      (quotes_poisoned (sys_server (example_stopping ts))) 0 (sys_server (example_stopping ts)) = Some s" "rt_finished 0 s"
    by blast
  have st: "exec example_ext example_dbg (ClientThread 0) (example_stopping ts) =
      Some ((example_stopping ts)\<lparr>sys_server := s\<rparr>)"
    using s(1) by (simp add: exec_def exec_action_def example_stopping_fields with_server_def Let_def)
  with s(2) show ?thesis by blast
qed

text \<open>The thread takes the \<open>Shutdown\<close>, and the connection answers.\<close>

lemma example_run_stopped:
  assumes "tickers_ok ts"
  shows "\<exists>S S'. reachable (started example_ext example_dbg) (exec example_ext example_dbg) S \<and> joiner S 0 0 \<and>
     exec example_ext example_dbg (Resume 0 (good_io 0)) S = Some S' \<and> sys_exit S' = None"
proof -
  obtain s where s: "rt_finished 0 s"
    and st: "exec example_ext example_dbg (ClientThread 0) (example_stopping ts) =
      Some ((example_stopping ts)\<lparr>sys_server := s\<rparr>)"
    using example_stopping_steps by blast
  let ?S = "(example_stopping ts)\<lparr>sys_server := s\<rparr>"
  have "reachable (started example_ext example_dbg) (exec example_ext example_dbg) ?S"
    using reachable.successor [OF example_stopping_reachable [OF assms] st] .
  moreover have "joiner ?S 0 0" using example_stopping_fields(3) by (simp add: joiner_def)
  moreover have "\<exists>S'. exec example_ext example_dbg (Resume 0 (good_io 0)) ?S = Some S' \<and> sys_exit S' = None"
    using s by (simp add: exec_def exec_action_def with_conn_def conn_resume_def call_resume_def
        Let_def example_stopping_def example_subscription_def example_start_def)
  ultimately show ?thesis by blast
qed


section \<open>Up to a notification\<close>

definition example_pass :: "unit pass" where
  "example_pass = \<lparr>pass_draws = (\<lambda>_ _. example_draw (Inr 0)), pass_order = [''AAPL'']\<rparr>"

lemma example_orders:
  assumes "clients s = clients (subscribed_server0 ts)" and "dom (quotes s) = {''AAPL''}"
  shows "orders_ok example_ext example_pass [0] s"
  using assms by (auto simp: orders_ok_def example_pass_def example_ext_def schedule_ok_def subscribed_server0_fields)

lemma exec_background:
  assumes "sys_exit S = None" and "orders_ok ext p ids (sys_server S)"
    and "bg_step ext p ids (sys_clock S) t (sys_server S) = Some s'"
  shows "exec ext dbg (Background t p ids) S = Some (S\<lparr>sys_server := s'\<rparr>)"
  using assms by (simp add: exec_def exec_action_def with_server_def Let_def)

lemma example_run_notifying:
  assumes "tickers_ok ts"
  shows "\<exists>S. reachable (started example_ext example_dbg) (exec example_ext example_dbg) S \<and> sys_exit S = None \<and>
     bg_threads (sys_server S) 0 = Some BgNotifying \<and> \<not> clients_locked (sys_server S) \<and>
     clients (sys_server S) = clients (subscribed_server0 ts) \<and>
     rt_threads (sys_server S) = rt_threads (subscribed_server0 ts) \<and>
     dom (quotes (sys_server S)) = {''AAPL''} \<and> rt_world (sys_server S) = []"
proof -
  let ?r = "reachable (started example_ext example_dbg) (exec example_ext example_dbg)"
  let ?bg = "\<lambda>pc s. s\<lparr>bg_threads := [0 \<mapsto> pc]\<rparr> :: server"
  let ?s = "subscribed_server0 ts"
  have sf: "sys_exit (example_subscription ts) = None" "sys_server (example_subscription ts) = ?s"
    "sys_clock (example_subscription ts) = 0"
    by (simp_all add: example_subscription_def example_start_def)
  let ?S1 = "(example_subscription ts)\<lparr>sys_server := ?bg (BgSleeping 200) ?s\<rparr>"
  have "exec example_ext example_dbg (Background 0 example_pass [0]) (example_subscription ts) = Some ?S1"
    using sf subscribed_server0_fields
    by (intro exec_background example_orders) (simp_all add: bg_step_def SERVER_TICK_PERIOD_MSEC_def)
  then have r1: "?r ?S1" by (rule reachable.successor [OF example_subscription_reachable [OF assms]])
  let ?S2 = "?S1\<lparr>sys_clock := 200\<rparr>"
  have "exec example_ext example_dbg (Tick 200) ?S1 = Some ?S2"
    using sf by (simp add: exec_def exec_action_def Let_def)
  then have r2: "?r ?S2" by (rule reachable.successor [OF r1])
  let ?S3 = "?S2\<lparr>sys_server := ?bg (BgUpdating 200) ?s\<rparr>"
  have "exec example_ext example_dbg (Background 0 example_pass [0]) ?S2 =
      Some (?S2\<lparr>sys_server := ?bg (BgUpdating 200) ?s\<rparr>)"
    using sf subscribed_server0_fields
    by (intro exec_background example_orders) (simp_all add: bg_step_def)
  then have r3: "?r ?S3" by (rule reachable.successor [OF r2])
  obtain res m where u: "update_quotes (x_lognormal example_ext) (pass_draws example_pass) (pass_order example_pass)
      (generator ?s) (quotes ?s) = (res, m)" by fastforce
  have "try_write (?bg (BgUpdating 200) ?s)"
    using subscribed_server0_fields
    by (simp add: try_write_def read_locked_def new_thread_def is_notifying_def)
  with u have "update_attempt example_ext example_pass 0 (?bg (BgUpdating 200) ?s) =
      (Returned (map_err (\<lambda>_. UpdateQuoteError ''Failed to update quotes'') res),
       (?bg (BgUpdating 200) ?s)\<lparr>quotes := m\<rparr>)"
    by (simp add: update_attempt_def WRITE_TIMEOUT_MS_def)
  then have st4: "bg_step example_ext example_pass [0] 200 0 (?bg (BgUpdating 200) ?s) =
      Some (?bg BgNotifying (?s\<lparr>quotes := m\<rparr>))"
    by (simp add: bg_step_def)
  let ?S4 = "?S3\<lparr>sys_server := ?bg BgNotifying (?s\<lparr>quotes := m\<rparr>)\<rparr>"
  have "exec example_ext example_dbg (Background 0 example_pass [0]) ?S3 = Some ?S4"
    using sf st4 subscribed_server0_fields
    by (intro exec_background example_orders) simp_all
  then have "?r ?S4" by (rule reachable.successor [OF r3])
  moreover have "dom m = {''AAPL''}"
    using dom_update_quotes [of "pass_order example_pass" "x_lognormal example_ext" "pass_draws example_pass"
        "generator ?s" "quotes ?s"] u subscribed_server0_fields(8) by (simp add: example_pass_def)
  ultimately show ?thesis
    using sf subscribed_server0_fields by (intro exI [of _ ?S4]) simp
qed

text \<open>The client thread takes its \<open>Update\<close> and sends one datagram.\<close>

lemma exec_client_thread:
  assumes "sys_exit S = None" and "rt_threads (sys_server S) t = Some th" and "\<not> quotes_poisoned (sys_server S)"
    and "thread_step (x_ser ext) (quotes (sys_server S)) False th (rt_world (sys_server S)) = Some (th', w')"
  shows "exec ext dbg (ClientThread t) S = Some (S\<lparr>sys_server := (sys_server S)
     \<lparr>rt_threads := (rt_threads (sys_server S))(t \<mapsto> th'), rt_world := w'\<rparr>\<rparr>)"
  using assms by (simp add: exec_def exec_action_def with_server_def rt_step_def Let_def)

end
