(* ===== verification/System_Properties.thy ===== *)
theory System_Properties
  imports Example_Run
begin

text \<open>
  Properties of every run of the server program: the invariant of the concurrent system, that
  the clients mutex is always released again, what is sent to whom, that a removed client is
  silent for ever, that ids are not confused, and which clients are never removed.
\<close>

section \<open>The program as a transition system\<close>

text \<open>Threads advance and the configured tickers stay; connections are never forgotten.\<close>

definition sys_le :: "system \<Rightarrow> system \<Rightarrow> bool" where
  "sys_le S S' \<longleftrightarrow> advances (sys_server S) (sys_server S') \<and>
     dom (quotes (sys_server S')) = dom (quotes (sys_server S)) \<and>
     (\<exists>ms. rt_world (sys_server S') = rt_world (sys_server S) @ ms) \<and>
     dom (sys_conns S) \<subseteq> dom (sys_conns S') \<and> sys_clock S \<le> sys_clock S'"

lemma sys_le_silent:
  "silent (sys_server S) (sys_server S') \<Longrightarrow> dom (sys_conns S) \<subseteq> dom (sys_conns S') \<Longrightarrow>
   sys_clock S \<le> sys_clock S' \<Longrightarrow> sys_le S S'"
  by (simp add: sys_le_def silent_def)

lemma sys_le_refl: "sys_le S S"
  by (simp add: sys_le_def advances_same)

lemma sys_le_trans: "sys_le S T \<Longrightarrow> sys_le T U \<Longrightarrow> sys_le S U"
  unfolding sys_le_def
  by (intro conjI; elim conjE exE)
    (blast intro: advances_trans, simp, simp, blast, simp)

lemma exec_le:
  assumes inv: "sys_inv (x_ser ext) S" and st: "exec ext dbg a S = Some S'"
  shows "sys_le S S'"
proof -
  let ?s = "sys_server S"
  have i: "serving ?s" "threads_wf ?s" using inv by (simp_all add: sys_inv_def)
  from st show ?thesis
  proof (cases rule: exec_cases)
    case (thread t s')
    obtain th th' w' where th: "rt_threads ?s t = Some th" and w: "rt_world s' = w'"
      and ts: "thread_step (x_ser ext) (quotes ?s) (quotes_poisoned ?s) th (rt_world ?s) = Some (th', w')"
      using thread(1) unfolding rt_step_eq by auto
    obtain addr where "th_callback th = udp_callback addr" "visits_own th"
      using i(2) th by (auto simp: threads_wf_def thread_wf_def)
    from thread_step_sends [OF ts this] have "\<exists>ms. rt_world s' = rt_world ?s @ ms" using w by auto
    with rt_step_effect [OF thread(1)] show ?thesis by (simp add: sys_le_def thread(2) same_rest_def)
  next
    case (background t p ids s')
    then have d: "distinct (pass_order p)" "distinct ids" and si: "server_inv ?s"
      using i(1) by (auto simp: orders_ok_def serving_def)
    from bg_step_effect [OF si d background(1)] show ?thesis by (simp add: sys_le_def background(3))
  next
    case (round k io evs co co' s')
    obtain h where "round_effect h co ?s co' s'" using conn_round_effect [OF round(5)] by blast
    from round_effect_sys [OF this i(1)] show ?thesis by (intro sys_le_silent) (auto simp: round(6))
  next
    case (resume k io co co' s')
    obtain t where "call_resume t ?s = Some s'" using conn_resume_effect [OF resume(2)] by blast
    from call_resume_sys [OF this i(1)] show ?thesis by (intro sys_le_silent) (auto simp: resume(3))
  qed (auto simp: sys_le_def advances_same)
qed

interpretation program:
  advancing_system "started ext dbg" "exec ext dbg" "sys_inv (x_ser ext)" sys_le for ext dbg
proof unfold_locales
  show "sys_inv (x_ser ext) S" if "started ext dbg S" for S
    using that server_main_inv unfolding started_def by blast
  show "sys_inv (x_ser ext) T" if "sys_inv (x_ser ext) S" "exec ext dbg a S = Some T" for S a T
    using exec_inv that by blast
qed (auto intro: sys_le_refl sys_le_trans exec_le)


section \<open>Invariant\<close>

text \<open>
  C1: in every state the server program can reach, every registered client is served by a
  live thread of its own, every quote is stored under its ticker, the background thread is
  running, every datagram sent so far belongs to a subscription, and the clients mutex is
  held exactly while one connection waits for a thread that has been told to finish.
\<close>

theorem program_invariant:
  assumes "reachable (started ext dbg) (exec ext dbg) S"
  shows "sys_inv (x_ser ext) S"
  using assms by (rule program.reachable_inv)

theorem program_invariant_witness: "sys_inv (x_ser example_ext) example_start"
  by (rule program_invariant [OF example_reachable])


section \<open>The clients mutex is released\<close>

lemma exec_thread_run:
  assumes "sys_exit S = None"
    and "rt_threads (sys_server S) t = Some th" and "\<not> quotes_poisoned (sys_server S)"
    and "thread_run (x_ser ext) False (replicate n (quotes (sys_server S))) th (rt_world (sys_server S)) = Some (th', w')"
  shows "run_steps (exec ext dbg) (replicate n (ClientThread t)) S =
     Some (S\<lparr>sys_server := (sys_server S)\<lparr>rt_threads := (rt_threads (sys_server S))(t \<mapsto> th'), rt_world := w'\<rparr>\<rparr>)"
  using assms
proof (induction n arbitrary: S th)
  case 0
  then have "(rt_threads (sys_server S))(t \<mapsto> th') = rt_threads (sys_server S)" and "w' = rt_world (sys_server S)"
    by auto
  then show ?case by simp
next
  case (Suc n)
  let ?s = "sys_server S"
  obtain th1 w1 where st: "thread_step (x_ser ext) (quotes ?s) False th (rt_world ?s) = Some (th1, w1)"
    and rest: "thread_run (x_ser ext) False (replicate n (quotes ?s)) th1 w1 = Some (th', w')"
    using Suc.prems(4) by (auto split: option.splits)
  let ?S = "S\<lparr>sys_server := ?s\<lparr>rt_threads := (rt_threads ?s)(t \<mapsto> th1), rt_world := w1\<rparr>\<rparr>"
  have "exec ext dbg (ClientThread t) S = Some ?S"
    using Suc.prems(1-3) st by (simp add: exec_def exec_action_def with_server_def rt_step_def Let_def)
  moreover have "run_steps (exec ext dbg) (replicate n (ClientThread t)) ?S =
      Some (S\<lparr>sys_server := ?s\<lparr>rt_threads := (rt_threads ?s)(t \<mapsto> th'), rt_world := w'\<rparr>\<rparr>)"
    using Suc.IH [of ?S th1] Suc.prems(1,3) rest
    by (simp del: fun_upd_apply add: fun_upd_same)
  ultimately show ?case by (simp del: fun_upd_apply)
qed

text \<open>A thread that has to finish does so when it is scheduled often enough.\<close>

lemma doomed_finishes:
  assumes "sys_inv (x_ser ext) S" and "sys_exit S = None"
    and "rt_threads (sys_server S) t = Some th" and "doomed th"
  shows "\<exists>th' w'. run_steps (exec ext dbg) (replicate (thread_work False th) (ClientThread t)) S =
      Some (S\<lparr>sys_server := (sys_server S)\<lparr>rt_threads := (rt_threads (sys_server S))(t \<mapsto> th'), rt_world := w'\<rparr>\<rparr>) \<and>
    th_pc th' = Finished"
proof -
  have np: "\<not> quotes_poisoned (sys_server S)" using assms(1) by (simp add: sys_inv_def background_ok_def)
  show ?thesis
  proof (cases "th_pc th = Finished")
    case True
    then have "thread_work False th = 0" by (simp add: thread_work_def)
    with exec_thread_run [OF assms(2,3) np, of ext 0 th "rt_world (sys_server S)" dbg] True
    show ?thesis by (intro exI [of _ th] exI [of _ "rt_world (sys_server S)"]) (simp del: fun_upd_apply)
  next
    case False
    with assms(4) have "Shutdown \<in> set (ch_queue (th_chan th))" by (simp add: doomed_def)
    from thread_join_terminates_aux [OF False this length_replicate]
    obtain th' w' where "thread_run (x_ser ext) False (replicate (thread_work False th) (quotes (sys_server S))) th
        (rt_world (sys_server S)) = Some (th', w')" "th_pc th' = Finished" by blast
    with exec_thread_run [OF assms(2,3) np this(1), of dbg] show ?thesis by blast
  qed
qed

text \<open>So a handler that waits for a thread can go on, and the registry stays as it is.\<close>

lemma join_completes:
  assumes inv: "sys_inv (x_ser ext) S" and "sys_exit S = None"
    and co: "sys_conns S i = Some co" "co_pc co = Joining t a"
  shows "\<exists>n S'. run_steps (exec ext dbg) (replicate n (ClientThread t) @ [Resume i io]) S = Some S' \<and>
     sys_conns S' = (sys_conns S)(i \<mapsto> run_after io a co) \<and> \<not> clients_locked (sys_server S') \<and>
     rt_finished t (sys_server S') \<and> clients (sys_server S') = clients (sys_server S) \<and>
     clients_count (sys_server S') = clients_count (sys_server S) \<and>
     sys_clock S' = sys_clock S \<and> sys_exit S' = None"
proof -
  have "joiner S i t" using co by (auto simp: joiner_def joining_Some)
  then obtain th where th: "rt_threads (sys_server S) t = Some th" "doomed th"
    using inv unfolding sys_inv_def lock_ok_def by metis
  obtain th' w' where run: "run_steps (exec ext dbg) (replicate (thread_work False th) (ClientThread t)) S =
      Some (S\<lparr>sys_server := (sys_server S)\<lparr>rt_threads := (rt_threads (sys_server S))(t \<mapsto> th'), rt_world := w'\<rparr>\<rparr>)"
    and fin: "th_pc th' = Finished"
    using doomed_finishes [OF inv assms(2) th, of dbg] by blast
  let ?s = "(sys_server S)\<lparr>rt_threads := (rt_threads (sys_server S))(t \<mapsto> th'), rt_world := w'\<rparr>"
  let ?s' = "(client_joined t ?s)\<lparr>clients_locked := False\<rparr>"
  have "call_resume t ?s = Some ?s'" using fin by (simp add: call_resume_def rt_finished_def)
  then have "exec ext dbg (Resume i io) (S\<lparr>sys_server := ?s\<rparr>) =
      Some (S\<lparr>sys_conns := (sys_conns S)(i \<mapsto> run_after io a co), sys_server := ?s'\<rparr>)"
    using co assms(2) by (simp add: exec_def exec_action_def with_conn_def conn_resume_def Let_def)
  then have "run_steps (exec ext dbg) (replicate (thread_work False th) (ClientThread t) @ [Resume i io]) S =
      Some (S\<lparr>sys_conns := (sys_conns S)(i \<mapsto> run_after io a co), sys_server := ?s'\<rparr>)"
    unfolding run_steps_append run by simp
  moreover have "rt_finished t ?s'" "clients ?s' = clients (sys_server S)"
    "clients_count ?s' = clients_count (sys_server S)"
    using fin by (simp_all add: client_joined_def rt_drop_sender_def rt_finished_def)
  ultimately show ?thesis
    using assms(2) by (intro exI [of _ "thread_work False th"] exI conjI) (assumption | simp)+
qed

text \<open>
  C6: no deadlock on the clients mutex. In every reachable state in which the mutex is held
  across steps, one connection waits for one client thread; scheduling only that thread
  some number of times and then that connection leads to a state in which the mutex is free,
  the thread has finished and the connection does not wait any more.
\<close>

theorem clients_mutex_released:
  assumes "reachable (started ext dbg) (exec ext dbg) S" and "sys_exit S = None"
    and "clients_locked (sys_server S)"
  shows "\<exists>i t n S'. joiner S i t \<and>
     run_steps (exec ext dbg) (replicate n (ClientThread t) @ [Resume i io]) S = Some S' \<and>
     \<not> clients_locked (sys_server S') \<and> rt_finished t (sys_server S') \<and> (\<forall>u. \<not> joiner S' i u)"
proof -
  have inv: "sys_inv (x_ser ext) S" using assms(1) by (rule program.reachable_inv)
  then obtain i t where j: "joiner S i t" using assms(3) unfolding sys_inv_def lock_ok_def by metis
  then obtain co a where co: "sys_conns S i = Some co" "co_pc co = Joining t a"
    by (auto simp: joiner_def joining_Some)
  obtain n S' where "run_steps (exec ext dbg) (replicate n (ClientThread t) @ [Resume i io]) S = Some S'"
    and "sys_conns S' = (sys_conns S)(i \<mapsto> run_after io a co)" and "\<not> clients_locked (sys_server S')"
    and "rt_finished t (sys_server S')"
    using join_completes [OF inv assms(2) co, of dbg io] by blast
  moreover from this(2) have "\<not> joiner S' i u" for u
    using run_after_frame [of io a co] by (simp add: joiner_def)
  ultimately show ?thesis using j by blast
qed

theorem clients_mutex_released_witness:
  "\<exists>i t n S'. joiner (example_stopping [''AAPL'']) i t \<and>
     run_steps (exec example_ext example_dbg) (replicate n (ClientThread t) @ [Resume i (good_io 9)]) (example_stopping [''AAPL'']) = Some S' \<and>
     \<not> clients_locked (sys_server S') \<and> rt_finished t (sys_server S') \<and> (\<forall>u. \<not> joiner S' i u)"
  by (rule clients_mutex_released [OF example_stopping_reachable [OF tickers_ok_examples(1)] example_stopping_fields(1,2)])


section \<open>What is sent\<close>

lemma notification_delivers_aux:
  assumes "reachable (started ext dbg) (exec ext dbg) S" and "sys_exit S = None"
    and "bg_threads (sys_server S) 0 = Some BgNotifying" and "\<not> clients_locked (sys_server S)"
    and "orders_ok ext p ids (sys_server S)" and "clients (sys_server S) cid = Some c"
    and "cl_tx c = Some t" and "cl_callback c = udp_callback addr"
    and "rt_threads (sys_server S) t = Some th" and "th_pc th = Receiving" and "ch_queue (th_chan th) = []"
  shows "\<exists>S'. run_steps (exec ext dbg)
       (Background 0 p ids # replicate (length (cl_tickers c) + 2) (ClientThread t)) S = Some S' \<and>
     rt_world (sys_server S') = rt_world (sys_server S) @
       map (\<lambda>m. (addr, m)) (messages (x_ser ext) (quotes (sys_server S)) (cl_tickers c))"
proof -
  let ?s = "sys_server S"
  have inv: "sys_inv (x_ser ext) S" using assms(1) by (rule program.reachable_inv)
  then have sv: "server_inv ?s" "\<not> clients_poisoned ?s" and np: "\<not> quotes_poisoned ?s"
    by (simp_all add: sys_inv_def serving_def background_ok_def)
  have d: "distinct ids" "set ids = dom (clients ?s)" using assms(5) by (auto simp: orders_ok_def)
  have serves: "th_tickers th = cl_tickers c" "th_callback th = udp_callback addr"
  proof -
    obtain u th' where "serves ?s c u" "rt_threads ?s u = Some th'"
      using registered_thread [OF sv(1) assms(6)] by blast
    with assms(7,8,9) show "th_tickers th = cl_tickers c" "th_callback th = udp_callback addr"
      by (auto simp: serves_def)
  qed
  let ?n = "snd (notify_clients ids ?s)"
  have n: "?n = notified (set ids) ?s" using sv d(1) by (simp add: notify_clients_def notify_loop_notified)
  have tn: "rt_threads ?n t = Some (push_cmd Update th)"
    using assms(6,7,9) d(2) by (auto simp: n notified_def)
  let ?S = "S\<lparr>sys_server := ?n\<lparr>bg_threads := (bg_threads ?n)(0 \<mapsto> BgChecking)\<rparr>\<rparr>"
  have bg: "exec ext dbg (Background 0 p ids) S = Some ?S"
    using assms(2,3,4,5) by (simp add: exec_def exec_action_def with_server_def bg_step_def Let_def)
  have q: "quotes ?n = quotes ?s" "quotes_poisoned ?n = quotes_poisoned ?s" "rt_world ?n = rt_world ?s"
    using notified_effect [of ?s "set ids"] by (simp_all add: n same_rest_def)
  have "thread_run (x_ser ext) False (replicate (length (cl_tickers c) + 2) (quotes ?s)) (push_cmd Update th) (rt_world ?s) =
      Some ((push_cmd Update th)\<lparr>th_chan := (th_chan (push_cmd Update th))\<lparr>ch_queue := []\<rparr>\<rparr>,
            deliver (udp_callback addr) (messages (x_ser ext) (quotes ?s) (cl_tickers c)) (rt_world ?s))"
    using update_round_aux [of "push_cmd Update th" "[]" "x_ser ext" "quotes ?s" "rt_world ?s"]
      assms(10,11) serves by simp
  from exec_thread_run [of ?S t "push_cmd Update th" ext "length (cl_tickers c) + 2" _ _ dbg] this
  have run: "run_steps (exec ext dbg) (replicate (length (cl_tickers c) + 2) (ClientThread t)) ?S =
      Some (?S\<lparr>sys_server := (sys_server ?S)\<lparr>rt_threads := (rt_threads (sys_server ?S))
        (t \<mapsto> (push_cmd Update th)\<lparr>th_chan := (th_chan (push_cmd Update th))\<lparr>ch_queue := []\<rparr>\<rparr>),
        rt_world := deliver (udp_callback addr) (messages (x_ser ext) (quotes ?s) (cl_tickers c)) (rt_world ?s)\<rparr>\<rparr>)"
    using assms(2) tn np q by (simp del: fun_upd_apply)
  have "deliver (udp_callback addr) ms w = w @ map (\<lambda>m. (addr, m)) ms" for ms w
    by (induction ms arbitrary: w) (simp_all add: udp_callback_def)
  with bg run show ?thesis by (simp del: fun_upd_apply)
qed

lemma example_notified:
  assumes "sys_exit S = None"
    and "clients (sys_server S) = clients (subscribed_server0 [''AAPL''])"
    and "rt_threads (sys_server S) = rt_threads (subscribed_server0 [''AAPL''])"
    and q: "dom (quotes (sys_server S)) = {''AAPL''}" and "rt_world (sys_server S) = []"
  shows "clients (sys_server S) 0 = Some (started_client [''AAPL''] (udp_callback example_addr) 0)"
    and "cl_tx (started_client [''AAPL''] (udp_callback example_addr) 0) = Some 0"
    and "cl_callback (started_client [''AAPL''] (udp_callback example_addr) 0) = udp_callback example_addr"
    and "rt_threads (sys_server S) 0 = Some (new_thread [''AAPL''] (udp_callback example_addr))"
    and "th_pc (new_thread [''AAPL''] (udp_callback example_addr)) = Receiving"
    and "ch_queue (th_chan (new_thread [''AAPL''] (udp_callback example_addr))) = []"
    and "messages (x_ser example_ext) (quotes (sys_server S)) [''AAPL''] = [''json'']"
proof -
  have "quotes (sys_server S) ''AAPL'' \<noteq> None" using q by blast
  then show "messages (x_ser example_ext) (quotes (sys_server S)) [''AAPL''] = [''json'']"
    by (auto simp: example_ext_def)
qed (use assms in \<open>simp_all add: subscribed_server0_fields started_client_def new_thread_def chan_new_def\<close>)

lemma example_run_delivered:
  "\<exists>S. reachable (started example_ext example_dbg) (exec example_ext example_dbg) S \<and>
     (example_addr, ''json'') \<in> set (rt_world (sys_server S))"
proof -
  obtain S where r: "reachable (started example_ext example_dbg) (exec example_ext example_dbg) S"
    and S: "sys_exit S = None" "bg_threads (sys_server S) 0 = Some BgNotifying" "\<not> clients_locked (sys_server S)"
    and c: "clients (sys_server S) = clients (subscribed_server0 [''AAPL''])"
      "rt_threads (sys_server S) = rt_threads (subscribed_server0 [''AAPL''])"
    and q: "dom (quotes (sys_server S)) = {''AAPL''}" and w: "rt_world (sys_server S) = []"
    using example_run_notifying [OF tickers_ok_examples(1)] by blast
  note ex = example_notified [OF S(1) c q w]
  obtain S' where S': "run_steps (exec example_ext example_dbg)
       (Background 0 example_pass [0] # replicate 3 (ClientThread 0)) S = Some S'"
    "rt_world (sys_server S') = [(example_addr, ''json'')]"
    using notification_delivers_aux [OF r S example_orders [OF c(1) q] ex(1-6)] ex(7) w
    by (auto simp: started_client_def numeral_3_eq_3 simp del: run_steps.simps messages_simps)
  from run_steps_reachable [OF S'(1) r] S'(2) show ?thesis by auto
qed



text \<open>
  C7: once the handler that removed a client has gone on, in particular once \<open>STOP OK\<close> has
  been written, the thread of that client never takes a step again in any continuation of
  the run: no datagram follows the answer to \<open>STOP\<close>.
\<close>

theorem removed_client_silent:
  assumes "reachable (started ext dbg) (exec ext dbg) S" and "joiner S i t"
    and "exec ext dbg (Resume i io) S = Some S1" and "run_steps (exec ext dbg) as S1 = Some S2"
  shows "exec ext dbg (ClientThread t) S2 = None"
proof -
  have inv: "sys_inv (x_ser ext) S" using assms(1) by (rule program.reachable_inv)
  have inv1: "sys_inv (x_ser ext) S1" using inv assms(3) by (rule program.inv_step)
  obtain th where th: "rt_threads (sys_server S) t = Some th"
    using inv assms(2) unfolding sys_inv_def lock_ok_def by blast
  obtain co a where "sys_conns S i = Some co" "co_pc co = Joining t a"
    using assms(2) by (auto simp: joiner_def joining_Some)
  then have "rt_finished t (sys_server S)"
    using assms(3) by (auto simp: exec_def exec_action_def with_conn_def conn_resume_def Let_def
        call_resume_def split: if_splits)
  with th have fin: "th_pc th = Finished" by (simp add: rt_finished_def)
  have "sys_le S S2"
    using program.le_step [OF inv assms(3)] program.run_le [OF assms(4) inv1] by (rule program.le_trans)
  then obtain th2 where "rt_threads (sys_server S2) t = Some th2" "th_pc th2 = Finished"
    using advancesD [OF _ th, of "sys_server S2"] fin by (auto simp: sys_le_def thread_le_def)
  then show ?thesis
    by (simp add: exec_def exec_action_def with_server_def rt_step_def thread_step_def Let_def)
qed

theorem removed_client_silent_witness:
  "\<exists>S1. exec example_ext example_dbg (ClientThread 0) (S1\<lparr>sys_clock := sys_clock S1 + 200\<rparr>) = None \<and>
     sys_exit S1 = None"
proof -
  obtain S S1 where S: "reachable (started example_ext example_dbg) (exec example_ext example_dbg) S"
    "joiner S 0 0" "exec example_ext example_dbg (Resume 0 (good_io 0)) S = Some S1" and e: "sys_exit S1 = None"
    using example_run_stopped [OF tickers_ok_examples(1)] by blast
  have "run_steps (exec example_ext example_dbg) [Tick 200] S1 = Some (S1\<lparr>sys_clock := sys_clock S1 + 200\<rparr>)"
    using e by (simp add: exec_def exec_action_def Let_def)
  from removed_client_silent [OF S this] e show ?thesis by blast
qed

text \<open>
  C2: what one update round sends. When the background thread is about to notify, and the
  thread of a registered client is idle, then the notification followed by the steps of that
  thread sends to the client, in the order of its subscription, exactly one datagram for
  each subscribed ticker that is configured, and nothing else.
\<close>

theorem notification_delivers:
  assumes "reachable (started ext dbg) (exec ext dbg) S" and "sys_exit S = None"
    and "bg_threads (sys_server S) 0 = Some BgNotifying" and "\<not> clients_locked (sys_server S)"
    and "orders_ok ext p ids (sys_server S)" and "clients (sys_server S) cid = Some c"
    and "cl_tx c = Some t" and "cl_callback c = udp_callback addr"
    and "rt_threads (sys_server S) t = Some th" and "th_pc th = Receiving" and "ch_queue (th_chan th) = []"
  shows "\<exists>S'. run_steps (exec ext dbg)
       (Background 0 p ids # replicate (length (cl_tickers c) + 2) (ClientThread t)) S = Some S' \<and>
     rt_world (sys_server S') = rt_world (sys_server S) @
       map (\<lambda>m. (addr, m)) (messages (x_ser ext) (quotes (sys_server S)) (cl_tickers c))"
  using assms by (rule notification_delivers_aux)

theorem notification_delivers_witness:
  "\<exists>S S'. bg_threads (sys_server S) 0 = Some BgNotifying \<and>
     run_steps (exec example_ext example_dbg)
       (Background 0 example_pass [0] # replicate 3 (ClientThread 0)) S = Some S' \<and>
     rt_world (sys_server S') = [(example_addr, ''json'')]"
proof -
  obtain S where r: "reachable (started example_ext example_dbg) (exec example_ext example_dbg) S"
    and S: "sys_exit S = None" "bg_threads (sys_server S) 0 = Some BgNotifying" "\<not> clients_locked (sys_server S)"
    and c: "clients (sys_server S) = clients (subscribed_server0 [''AAPL''])"
      "rt_threads (sys_server S) = rt_threads (subscribed_server0 [''AAPL''])"
    and q: "dom (quotes (sys_server S)) = {''AAPL''}" and w: "rt_world (sys_server S) = []"
    using example_run_notifying [OF tickers_ok_examples(1)] by blast
  note ex = example_notified [OF S(1) c q w]
  show ?thesis
    using notification_delivers [OF r S example_orders [OF c(1) q] ex(1-6)] ex(7) S(2) w
    by (auto simp: started_client_def numeral_3_eq_3 simp del: run_steps.simps messages_simps)
qed

text \<open>
  C33: a subscription is matched letter by letter against upper-case tickers. A client all
  of whose tickers contain a lower-case letter of ASCII is never sent anything: no step of
  its thread sends, in any reachable state. (The library's table of upper-case forms is
  assumed to contain no such letter.)
\<close>

theorem lowercase_never_served:
  assumes "\<And>c. \<not> has_lower (x_upper ext c)" and "reachable (started ext dbg) (exec ext dbg) S"
    and "rt_threads (sys_server S) t = Some th" and "list_all has_lower (th_tickers th)"
    and "exec ext dbg (ClientThread t) S = Some S'"
  shows "rt_world (sys_server S') = rt_world (sys_server S)"
proof -
  let ?s = "sys_server S"
  have upper: "\<not> has_lower k" if "k \<in> dom (quotes ?s)" for k
  proof -
    obtain S0 where S0: "started ext dbg S0" "sys_le S0 S" using program.reachable_above [OF assms(2)] by blast
    then have "k \<in> dom (quotes (sys_server S0))" using that by (simp add: sys_le_def)
    with server_main_keys S0(1) obtain l where "k = to_uppercase (x_upper ext) l"
      unfolding started_def by blast
    with to_uppercase_no_lower [OF assms(1)] show ?thesis by simp
  qed
  have inv: "threads_wf ?s" using program.reachable_inv [OF assms(2)] by (simp add: sys_inv_def)
  obtain addr where cb: "th_callback th = udp_callback addr" "visits_own th"
    using inv assms(3) by (auto simp: threads_wf_def thread_wf_def)
  obtain s' where s': "rt_step (x_ser ext) (quotes ?s) (quotes_poisoned ?s) t ?s = Some s'"
    "S' = S\<lparr>sys_server := s'\<rparr>"
    using assms(5) by (auto simp: exec_def exec_action_def with_server_def Let_def split: if_splits)
  obtain th' w' where "thread_step (x_ser ext) (quotes ?s) (quotes_poisoned ?s) th (rt_world ?s) = Some (th', w')"
    and w: "rt_world s' = w'" using s'(1) assms(3) unfolding rt_step_eq by auto
  from thread_step_sends [OF this(1) cb] upper assms(4) w show ?thesis
    by (auto simp: s'(2) list_all_iff)
qed

theorem lowercase_never_served_witness:
  "\<exists>S'. exec example_ext example_dbg (ClientThread 0) (example_stopping [''aapl'']) = Some S' \<and>
     rt_world (sys_server S') = rt_world (sys_server (example_stopping [''aapl'']))"
proof -
  let ?th = "push_cmd Shutdown (new_thread [''aapl''] (udp_callback example_addr))"
  have th: "rt_threads (sys_server (example_stopping [''aapl''])) 0 = Some ?th"
    by (simp add: example_stopping_def)
  have low: "list_all has_lower (th_tickers ?th)"
    by (simp add: new_thread_def has_lower_def byte_of_def)
  obtain S' where st: "exec example_ext example_dbg (ClientThread 0) (example_stopping [''aapl'']) = Some S'"
    using example_stopping_steps by blast
  from lowercase_never_served [OF example_upper_no_lower
      example_stopping_reachable [OF tickers_ok_examples(2)] th low st] st
  show ?thesis by blast
qed


section \<open>The update cycle\<close>

text \<open>From the test of the flag to the notification.\<close>

lemma cycle_to_notification:
  assumes "sys_inv (x_ser ext) S" and "sys_exit S = None"
    and "bg_threads (sys_server S) 0 = Some BgChecking" and "\<not> read_locked (sys_server S)"
    and "orders_ok ext p ids (sys_server S)"
    and "m = snd (update_quotes (x_lognormal ext) (pass_draws p) (pass_order p)
        (generator (sys_server S)) (quotes (sys_server S)))"
  shows "run_steps (exec ext dbg) [Background 0 p ids, Tick 200, Background 0 p ids, Background 0 p ids] S =
    Some (S\<lparr>sys_clock := sys_clock S + 200, sys_server := (sys_server S)\<lparr>quotes := m,
      bg_threads := (bg_threads (sys_server S))(0 \<mapsto> BgNotifying)\<rparr>\<rparr>)"
proof -
  let ?s = "sys_server S"
  let ?bg = "\<lambda>pc s. s\<lparr>bg_threads := (bg_threads ?s)(0 \<mapsto> pc)\<rparr> :: server"
  have b: "\<not> shutdown_flag ?s" "\<not> quotes_poisoned ?s" using assms(1) by (simp_all add: sys_inv_def background_ok_def)
  have ord: "orders_ok ext p ids s'" if "clients s' = clients ?s" "quotes s' = quotes ?s" "generator s' = generator ?s"
    for s' :: server
    using assms(5) that by (simp add: orders_ok_def split: sum.splits)
  let ?S1 = "S\<lparr>sys_server := ?bg (BgSleeping (sys_clock S + 200)) ?s\<rparr>"
  have s1: "exec ext dbg (Background 0 p ids) S = Some ?S1"
    using assms(2,3,5) b by (intro exec_background) (simp_all add: bg_step_def SERVER_TICK_PERIOD_MSEC_def)
  let ?S2 = "?S1\<lparr>sys_clock := sys_clock S + 200\<rparr>"
  have s2: "exec ext dbg (Tick 200) ?S1 = Some ?S2"
    using assms(2) by (simp add: exec_def exec_action_def Let_def)
  let ?S3 = "?S2\<lparr>sys_server := ?bg (BgUpdating (sys_clock S + 200)) ?s\<rparr>"
  have s3: "exec ext dbg (Background 0 p ids) ?S2 = Some ?S3"
    using assms(2) by (intro exec_background ord) (simp_all add: bg_step_def)
  have "try_write (?bg (BgUpdating (sys_clock S + 200)) ?s)"
    using assms(4) b by (simp add: try_write_def read_locked_def)
  then have st: "bg_step ext p ids (sys_clock S + 200) 0 (?bg (BgUpdating (sys_clock S + 200)) ?s) =
      Some (?bg BgNotifying (?s\<lparr>quotes := m\<rparr>))"
    by (simp add: assms(6) bg_step_def update_attempt_def WRITE_TIMEOUT_MS_def split: prod.splits)
  have "exec ext dbg (Background 0 p ids) ?S3 = Some (?S3\<lparr>sys_server := ?bg BgNotifying (?s\<lparr>quotes := m\<rparr>)\<rparr>)"
    using assms(2) st by (intro exec_background ord) simp_all
  with s1 s2 s3 show ?thesis by simp
qed



section \<open>Starting and ending\<close>

text \<open>
  How the program starts and fails to. \<open>main\<close> returns an error exactly when the
  configuration cannot be opened or read or the listener cannot be bound; the error is the
  text of the first failure. Otherwise it runs, with the tickers of the configuration, no
  connection, no client, and the background thread at its first test.
\<close>

lemma server_main_outcomes:
  "server_main ext dbg rnd clk config bind_res clock = (case config of
     Inl e \<Rightarrow> Inl (GeneralError (''Invalid Quote Server config: '' @ io_message e))
   | Inr f \<Rightarrow> (case load_tickers (x_upper ext) rnd clk (file_lines f) Map.empty 0 of
       Inl e \<Rightarrow> Inl (GeneralError (show_server_error e))
     | Inr (m, n) \<Rightarrow> (case bind_res of
         Inl e \<Rightarrow> Inl (GeneralError (dbg (BindError (io_message e))))
       | Inr _ \<Rightarrow> Inr \<lparr>sys_server = running (initial_server m \<lparr>volatility = VOLATILITY\<rparr> []),
           sys_conns = Map.empty, sys_next = 0, sys_clock = clock, sys_exit = None\<rparr>)))"
  by (simp add: server_main_def from_config_def cli_error_from_def volatility_ok server_start_def
      initial_server_def tcp_bind_def running_def split: sum.splits prod.splits)

end
