(* ===== verification/Quote_Client.thy ===== *)
theory Quote_Client
  imports System
begin

text \<open>
  \<^verbatim>\<open>src/bins/client/main.rs\<close>: the interactive client. The keep-alive thread and the command
  loop share a TCP stream and its reader behind two mutexes, which each of them locks, in
  the same order, for a whole exchange or reconnection; so an exchange is one atomic
  operation on the \<open>link\<close>. The third thread prints the datagrams it receives. The results
  of socket calls, the lines of the terminal and the datagrams are arguments. Nothing can
  panic while the mutexes are held except a failing print of the main thread, which ends the
  program, so no thread ever finds a mutex poisoned; prints are taken to succeed.
\<close>

section \<open>The connection to the server\<close>

text \<open>The bytes written on the current stream, and what its reader has buffered.\<close>

record link =
  ln_sent :: string
  ln_buf :: string

text \<open>The results of \<^verbatim>\<open>TcpStream::connect\<close>, \<^verbatim>\<open>set_read_timeout\<close> and \<^verbatim>\<open>try_clone\<close>.\<close>

record connect_io =
  cn_connect :: "io_error + unit"
  cn_timeout :: "io_error + unit"
  cn_clone :: "io_error + unit"

definition new_link :: link where
  "new_link = \<lparr>ln_sent = [], ln_buf = []\<rparr>"

definition connect :: "connect_io \<Rightarrow> io_error + link" where
  "connect io = (case cn_connect io of
     Inl e \<Rightarrow> Inl e
   | Inr _ \<Rightarrow> (case cn_timeout io of
       Inl e \<Rightarrow> Inl e
     | Inr _ \<Rightarrow> (case cn_clone io of
         Inl e \<Rightarrow> Inl e
       | Inr _ \<Rightarrow> Inr new_link)))"

text \<open>
  The loop of \<^verbatim>\<open>reconnect\<close>, given what each attempt meets: the milliseconds slept and the
  new link; no result when all the attempts fail (the loop is still running).
\<close>

fun reconnect :: "connect_io list \<Rightarrow> (nat \<times> link) option" where
  "reconnect [] = None"
| "reconnect (io # ios) = (case connect io of
     Inr l \<Rightarrow> Some (0, l)
   | Inl e \<Rightarrow> map_option (\<lambda>(t, l). (t + 2000, l)) (reconnect ios))"


section \<open>Exchanges\<close>

text \<open>
  One exchange: for each \<^verbatim>\<open>write_all\<close> in order its error, if any, with the number of bytes
  written before it; the error of \<^verbatim>\<open>flush\<close>, if any; and the socket events of \<^verbatim>\<open>read_line\<close>.
\<close>

record exchange =
  ex_writes :: "(io_error \<times> nat) option list"
  ex_flush :: "io_error option"
  ex_read :: "read_event list"

fun write_parts :: "string list \<Rightarrow> (io_error \<times> nat) option list \<Rightarrow> link \<Rightarrow> (io_error + unit) \<times> link" where
  "write_parts [] rs l = (Inr (), l)"
| "write_parts (p # ps) (Some (e, n) # rs) l = (Inl e, l\<lparr>ln_sent := ln_sent l @ take n p\<rparr>)"
| "write_parts (p # ps) (None # rs) l = write_parts ps rs (l\<lparr>ln_sent := ln_sent l @ p\<rparr>)"
| "write_parts (p # ps) [] l = write_parts ps [] (l\<lparr>ln_sent := ln_sent l @ p\<rparr>)"

definition server_closed :: io_error where
  "server_closed = \<lparr>io_kind = UnexpectedEof, io_message = ''Server closed connection''\<rparr>"

text \<open>
  Writing the parts, flushing and reading one line, which an empty read turns into an
  error. No result while the read blocks.
\<close>

definition request :: "string list \<Rightarrow> exchange \<Rightarrow> link \<Rightarrow> ((io_error + string) \<times> link) option" where
  "request parts ex l = (case write_parts parts (ex_writes ex) l of
     (Inl e, l) \<Rightarrow> Some (Inl e, l)
   | (Inr _, l) \<Rightarrow> (case ex_flush ex of
       Some e \<Rightarrow> Some (Inl e, l)
     | None \<Rightarrow> (case read_line (ln_buf l) (ex_read ex) of
         Some (outcome, buf, []) \<Rightarrow>
           Some (case outcome of
                   ReadErr e \<Rightarrow> Inl e
                 | ReadOk n line \<Rightarrow> if n = 0 then Inl server_closed else Inr line,
                 l\<lparr>ln_buf := buf\<rparr>)
       | _ \<Rightarrow> None)))"

definition send_command :: "string \<Rightarrow> exchange \<Rightarrow> link \<Rightarrow> ((io_error + string) \<times> link) option" where
  "send_command command ex l = request [command, [newline]] ex l"

definition send_ping :: "exchange \<Rightarrow> link \<Rightarrow> ((io_error + unit) \<times> link) option" where
  "send_ping ex l = map_option (\<lambda>(r, l). (case r of
       Inl e \<Rightarrow> Inl e
     | Inr buf \<Rightarrow>
         if trim buf \<noteq> ''PONG''
         then Inl \<lparr>io_kind = InvalidData, io_message = ''Expected PONG, got: '' @ buf\<rparr>
         else Inr (), l))
     (request [''PING'' @ [newline]] ex l)"


section \<open>The threads\<close>

text \<open>The shared link, what was printed, and the message counter of the UDP thread, an \<^verbatim>\<open>i32\<close>.\<close>

record quote_client =
  qc_link :: link
  qc_stdout :: string
  qc_messages :: u32

text \<open>One round of the keep-alive loop: a ping, and a new connection if it fails.\<close>

definition keep_alive_round :: "exchange \<Rightarrow> connect_io list \<Rightarrow> quote_client \<Rightarrow> quote_client option" where
  "keep_alive_round ex ios c = (case send_ping ex (qc_link c) of
     None \<Rightarrow> None
   | Some (Inr _, l) \<Rightarrow> Some (c\<lparr>qc_link := l\<rparr>)
   | Some (Inl e, l) \<Rightarrow> map_option (\<lambda>(t, l'). c\<lparr>qc_link := l'\<rparr>) (reconnect ios))"

text \<open>
  The keep-alive loop, from the instant \<open>t\<close>, with its period in milliseconds: each round
  sleeps for the period, waits for the two mutexes, and makes its exchange, and if need be its
  reconnection, in the time given. The result has the instants at which the pings were sent;
  there is none while a round blocks.
\<close>

record ping_round =
  pr_wait :: nat
  pr_took :: nat
  pr_exchange :: exchange
  pr_reconnect :: "connect_io list"

fun keep_alive_loop :: "nat \<Rightarrow> ping_round list \<Rightarrow> nat \<Rightarrow> quote_client \<Rightarrow> (nat list \<times> quote_client) option" where
  "keep_alive_loop period [] t c = Some ([], c)"
| "keep_alive_loop period (r # rs) t c =
     (let sent = t + period + pr_wait r in
      case keep_alive_round (pr_exchange r) (pr_reconnect r) c of
        None \<Rightarrow> None
      | Some c \<Rightarrow> map_option (\<lambda>(ts, c). (sent # ts, c)) (keep_alive_loop period rs (sent + pr_took r) c))"

text \<open>
  One round of the command loop: the prompt, a line of the terminal (of 0 bytes at the end
  of the input), and for a command an exchange whose answer is printed. \<open>Exit\<close> ends the
  program.
\<close>

datatype cli_result = Continue | Exit "cli_error + unit"

definition cli_round ::
    "io_error option \<Rightarrow> io_error + string \<Rightarrow> exchange \<Rightarrow> connect_io list \<Rightarrow> quote_client
     \<Rightarrow> (cli_result \<times> quote_client) option" where
  "cli_round flush input ex ios c =
     (let c = c\<lparr>qc_stdout := qc_stdout c @ ''quote-client> ''\<rparr> in
      case flush of
        Some e \<Rightarrow> Some (Exit (Inl (GeneralError (io_message e))), c)
      | None \<Rightarrow> (case input of
          Inl e \<Rightarrow> Some (Exit (Inl (GeneralError (io_message e))), c)
        | Inr line \<Rightarrow>
            (let command = trim line in
             if command = [] then Some (Continue, c)
             else if eq_ignore_ascii_case command ''EXIT''
             then Some (Exit (Inr ()), c\<lparr>qc_stdout := qc_stdout c @ ''Exiting client.'' @ [newline]\<rparr>)
             else (case send_command command ex (qc_link c) of
                 None \<Rightarrow> None
               | Some (Inr resp, l) \<Rightarrow>
                   Some (Continue, c\<lparr>qc_link := l, qc_stdout := qc_stdout c @ resp\<rparr>)
               | Some (Inl e, l) \<Rightarrow>
                   map_option (\<lambda>(t, l'). (Continue, c\<lparr>qc_link := l'\<rparr>)) (reconnect ios)))))"

text \<open>The command loop over the rounds the terminal and the sockets make possible.\<close>

record cli_io =
  ci_flush :: "io_error option"
  ci_input :: "io_error + string"
  ci_exchange :: exchange
  ci_reconnect :: "connect_io list"

fun cli_loop :: "cli_io list \<Rightarrow> quote_client \<Rightarrow> (cli_result \<times> quote_client) option" where
  "cli_loop [] c = Some (Continue, c)"
| "cli_loop (io # ios) c =
     (case cli_round (ci_flush io) (ci_input io) (ci_exchange io) (ci_reconnect io) c of
        None \<Rightarrow> None
      | Some (Exit r, c') \<Rightarrow> Some (Exit r, c')
      | Some (Continue, c') \<Rightarrow> cli_loop ios c')"

text \<open>
  One round of the UDP thread: a datagram is cut to the buffer of 2048 bytes, decoded,
  trimmed, laid out by the \<^verbatim>\<open>serde_json\<close> crate if that can read it (\<open>pretty\<close>, from the
  text to the layout), and printed with its number and the text of its source address.
  Every error of the receive is skipped.
\<close>

definition udp_round ::
    "(string \<Rightarrow> string option) \<Rightarrow> io_error + string \<times> string \<Rightarrow> quote_client \<Rightarrow> quote_client" where
  "udp_round pretty recv c = (case recv of
     Inl e \<Rightarrow> c
   | Inr (datagram, src) \<Rightarrow>
       (let n = qc_messages c + 1;
            raw = trim (from_utf8_lossy (take 2048 datagram));
            text = (case pretty raw of Some p \<Rightarrow> p | None \<Rightarrow> raw)
        in c\<lparr>qc_messages := n,
             qc_stdout := qc_stdout c @
               [newline] @ ''=== Quote Update #'' @ show_i32 n @ '' ==='' @ [newline] @
               ''From: '' @ src @ [newline] @
               ''Message:'' @ [newline] @ text @ [newline] @ [newline]\<rparr>))"

text \<open>The UDP socket: the results of binding it, of setting its timeout and of cloning it.\<close>

definition udp_setup :: "io_error + unit \<Rightarrow> io_error + unit \<Rightarrow> io_error + unit \<Rightarrow> cli_error + unit" where
  "udp_setup bind timeout clone =
     (case map_err (\<lambda>e. GeneralError (io_message e)) bind of
        Inl e \<Rightarrow> Inl e
      | Inr _ \<Rightarrow> (case map_err (\<lambda>e. GeneralError (io_message e)) timeout of
          Inl e \<Rightarrow> Inl e
        | Inr _ \<Rightarrow> map_err (\<lambda>e. GeneralError (io_message e)) clone))"

text \<open>\<^verbatim>\<open>main\<close> up to the loops.\<close>

definition client_main :: "connect_io \<Rightarrow> cli_error + unit \<Rightarrow> cli_error + quote_client" where
  "client_main io udp =
     (case map_err (\<lambda>e. GeneralError (io_message e)) (connect io) of
        Inl e \<Rightarrow> Inl e
      | Inr l \<Rightarrow> (case udp of
          Inl e \<Rightarrow> Inl e
        | Inr _ \<Rightarrow> Inr \<lparr>qc_link = l, qc_stdout = [], qc_messages = 0\<rparr>))"

text \<open>
  The three threads interleaved, one round at a time; the second component is the result of
  \<^verbatim>\<open>main\<close>, whose return ends the other threads.
\<close>

datatype client_action =
    KeepAlive exchange "connect_io list"
  | Terminal cli_io
  | Datagram "io_error + string \<times> string"

definition client_exec ::
    "(string \<Rightarrow> string option) \<Rightarrow> client_action \<Rightarrow> quote_client \<times> (cli_error + unit) option
     \<Rightarrow> (quote_client \<times> (cli_error + unit) option) option" where
  "client_exec pretty a C = (case C of
     (c, Some _) \<Rightarrow> None
   | (c, None) \<Rightarrow> (case a of
       KeepAlive ex ios \<Rightarrow> map_option (\<lambda>c. (c, None)) (keep_alive_round ex ios c)
     | Terminal io \<Rightarrow> map_option (\<lambda>(r, c). (c, case r of Continue \<Rightarrow> None | Exit r \<Rightarrow> Some r))
         (cli_round (ci_flush io) (ci_input io) (ci_exchange io) (ci_reconnect io) c)
     | Datagram recv \<Rightarrow> Some (udp_round pretty recv c, None)))"

definition client_init_logger :: "(string \<Rightarrow> string) \<Rightarrow> string \<Rightarrow> level_filter" where
  "client_init_logger tbl level = init_logger tbl level"


section \<open>Reading an answer\<close>

text \<open>Reads that deliver at least one byte each.\<close>

definition data_events :: "read_event list \<Rightarrow> bool" where
  "data_events evs \<longleftrightarrow> list_all (\<lambda>e. case e of Data bs \<Rightarrow> bs \<noteq> [] | _ \<Rightarrow> False) evs"

lemma data_events_all_data: "data_events evs \<Longrightarrow> all_data evs"
  by (auto simp: data_events_def all_data_def list_all_iff split: read_event.splits)

lemma data_events_empty: "data_events evs \<Longrightarrow> event_bytes evs = [] \<longleftrightarrow> evs = []"
  by (cases evs) (auto simp: data_events_def split: read_event.splits)

lemma data_events_append: "data_events (xs @ ys) \<longleftrightarrow> data_events xs \<and> data_events ys"
  by (simp add: data_events_def)

lemma read_answer:
  assumes "data_events evs" and "newline \<notin> set l" and "utf8_valid (l @ [newline])"
    and "event_bytes evs = l @ [newline]"
  shows "read_line [] evs = Some (ReadOk (Suc (length l)) (l @ [newline]), [], [])"
proof -
  obtain buf rest where r: "read_until [] [] evs = Some ([] @ l @ [newline], None, buf, rest)"
    and b: "buf @ event_bytes rest = []"
    using read_until_chunks [of evs l "[]" "[]" "[]"] assms data_events_all_data by auto
  obtain pre where "evs = pre @ rest" using read_until_prefix [OF r] by blast
  with assms(1) b have "rest = []" using data_events_empty [of rest] by (simp add: data_events_append)
  with r b assms(3) show ?thesis by (simp add: read_line_def line_outcome_def)
qed

lemma write_parts_ok: "write_parts ps [] l = (Inr (), l\<lparr>ln_sent := ln_sent l @ concat ps\<rparr>)"
  by (induction ps arbitrary: l) simp_all

text \<open>An exchange in which nothing fails.\<close>

definition good_exchange :: "read_event list \<Rightarrow> exchange" where
  "good_exchange evs = \<lparr>ex_writes = [], ex_flush = None, ex_read = evs\<rparr>"

lemma request_answered:
  assumes "data_events evs" and "newline \<notin> set a" and "utf8_valid (a @ [newline])"
    and "event_bytes evs = a @ [newline]" and "ln_buf l = []"
  shows "request parts (good_exchange evs) l = Some (Inr (a @ [newline]), l\<lparr>ln_sent := ln_sent l @ concat parts\<rparr>)"
proof -
  have "(l\<lparr>ln_sent := ln_sent l @ concat parts\<rparr>)\<lparr>ln_buf := []\<rparr> = l\<lparr>ln_sent := ln_sent l @ concat parts\<rparr>"
    using assms(5) by (cases l) simp
  then show ?thesis
    using read_answer [OF assms(1-4)] assms(5)
    by (simp add: request_def good_exchange_def write_parts_ok)
qed

lemma request_closed:
  assumes "ln_buf l = []"
  shows "request parts (good_exchange [Eof]) l = Some (Inl server_closed, l\<lparr>ln_sent := ln_sent l @ concat parts\<rparr>)"
proof -
  have "read_line [] [Eof] = Some (ReadOk 0 [], [], [])"
    by (simp add: read_line_def read_until.simps line_outcome_def utf8_valid_def)
  moreover have "(l\<lparr>ln_sent := ln_sent l @ concat parts\<rparr>)\<lparr>ln_buf := []\<rparr> = l\<lparr>ln_sent := ln_sent l @ concat parts\<rparr>"
    using assms by (cases l) simp
  ultimately show ?thesis
    using assms by (simp add: request_def good_exchange_def write_parts_ok)
qed


lemma connect_new: "connect io = Inr l \<Longrightarrow> l = new_link"
  by (auto simp: connect_def split: sum.splits)

lemma reconnect_new: "reconnect ios = Some (t, l) \<Longrightarrow> l = new_link"
  by (induction ios arbitrary: t) (auto dest: connect_new split: sum.splits)


section \<open>Properties of the client\<close>

text \<open>
  C22: \<open>reconnect\<close> returns the connection of the first attempt that succeeds, after two
  seconds for each attempt before it; it goes on as long as attempts fail. The new
  connection is empty: nothing sent on the old one, in particular no subscription, is
  repeated.
\<close>

theorem reconnect_first_success:
  "reconnect ios =
   (if list_ex (\<lambda>io. is_ok (connect io)) ios
    then Some (2000 * length (takeWhile (\<lambda>io. \<not> is_ok (connect io)) ios), new_link)
    else None)"
proof (induction ios)
  case (Cons io ios)
  then show ?case using connect_new [of io] by (cases "connect io") auto
qed simp

text \<open>
  C39: at the end of the terminal's input the client does not stop: it prints the prompt
  for ever, without sending anything. Every input line that is empty after trimming has
  the same effect.
\<close>

theorem end_of_input_spins:
  assumes "trim line = []" and "\<forall>io \<in> set ios. ci_flush io = None \<and> ci_input io = Inr line"
  shows "cli_loop ios c = Some (Continue,
     c\<lparr>qc_stdout := qc_stdout c @ concat (replicate (length ios) ''quote-client> '')\<rparr>)"
  using assms(2)
proof (induction ios arbitrary: c)
  case (Cons io ios)
  let ?c = "c\<lparr>qc_stdout := qc_stdout c @ ''quote-client> ''\<rparr>"
  have "cli_round (ci_flush io) (ci_input io) (ci_exchange io) (ci_reconnect io) c = Some (Continue, ?c)"
    using Cons.prems assms(1) by (simp add: cli_round_def)
  then have "cli_loop (io # ios) c = cli_loop ios ?c" by simp
  also have "\<dots> = Some (Continue, ?c\<lparr>qc_stdout := qc_stdout ?c @ concat (replicate (length ios) ''quote-client> '')\<rparr>)"
    using Cons.prems by (intro Cons.IH) simp
  finally show ?case by simp
qed simp

definition idle_io :: cli_io where
  "idle_io = \<lparr>ci_flush = None, ci_input = Inr [], ci_exchange = good_exchange [], ci_reconnect = []\<rparr>"

theorem end_of_input_spins_witness:
  "cli_loop [idle_io, idle_io] \<lparr>qc_link = new_link, qc_stdout = [], qc_messages = 0\<rparr> =
   Some (Continue, \<lparr>qc_link = new_link, qc_stdout = ''quote-client> quote-client> '', qc_messages = 0\<rparr>)"
  using end_of_input_spins [OF trim_empty, of "[idle_io, idle_io]"
      "\<lparr>qc_link = new_link, qc_stdout = [], qc_messages = 0\<rparr>"]
  by (simp add: idle_io_def del: cli_loop.simps)


section \<open>The keep-alive loop\<close>

text \<open>
  Two pings are apart by the period, the time the first one's round took and the wait of the
  second one's for the mutexes.
\<close>

lemma keep_alive_first:
  assumes "keep_alive_loop period rs t c = Some (ts, c')" and "t = u + d"
  shows "ts = [] \<or> u + period \<le> hd ts"
  using assms by (cases rs) (auto simp: Let_def split: option.splits)

lemma keep_alive_gaps:
  assumes "keep_alive_loop period rs t c = Some (ts, c')"
    and "list_all (\<lambda>r. pr_wait r < w \<and> pr_took r < k) rs"
  shows "successively (\<lambda>a b. a + period \<le> b \<and> b < a + period + w + k) ts \<and>
     (ts = [] \<or> hd ts < t + period + w)"
  using assms
proof (induction rs arbitrary: t c ts)
  case (Cons r rs)
  let ?sent = "t + period + pr_wait r"
  obtain c1 us where us: "keep_alive_loop period rs (?sent + pr_took r) c1 = Some (us, c')" "ts = ?sent # us"
    using Cons.prems(1) by (auto simp: Let_def split: option.splits)
  have "list_all (\<lambda>r. pr_wait r < w \<and> pr_took r < k) rs" using Cons.prems(2) by simp
  from Cons.IH [OF us(1) this] Cons.prems(2) have "?sent < t + period + w"
    and "successively (\<lambda>a b. a + period \<le> b \<and> b < a + period + w + k) us"
    and "us = [] \<or> hd us < ?sent + period + w + k" by auto
  with keep_alive_first [OF us(1) refl] us(2) show ?case by (auto simp: successively_Cons)
qed simp


text \<open>The loop is a run of the client program in which only the keep-alive thread acts.\<close>

lemma keep_alive_loop_run:
  assumes "keep_alive_loop period rs t c = Some (ts, c')"
  shows "run_steps (client_exec pretty) (map (\<lambda>r. KeepAlive (pr_exchange r) (pr_reconnect r)) rs) (c, None) =
     Some (c', None) \<and> length ts = length rs"
  using assms
proof (induction rs arbitrary: t c ts)
  case (Cons r rs)
  let ?sent = "t + period + pr_wait r"
  obtain c1 us where "keep_alive_round (pr_exchange r) (pr_reconnect r) c = Some c1"
    and "keep_alive_loop period rs (?sent + pr_took r) c1 = Some (us, c')" and "ts = ?sent # us"
    using Cons.prems by (auto simp: Let_def split: option.splits)
  with Cons.IH show ?case by (simp add: client_exec_def)
qed simp


section \<open>Printing the quotes\<close>

text \<open>The datagrams received, the text printed for one, and the block around it.\<close>

fun received :: "(io_error + string \<times> string) list \<Rightarrow> (string \<times> string) list" where
  "received [] = []"
| "received (Inl e # rs) = received rs"
| "received (Inr d # rs) = d # received rs"

definition quote_block :: "(string \<Rightarrow> string option) \<Rightarrow> nat \<times> string \<times> string \<Rightarrow> string" where
  "quote_block pretty nd = (case nd of (n, d, src) \<Rightarrow>
     [newline] @ ''=== Quote Update #'' @ show_nat n @ '' ==='' @ [newline] @
     ''From: '' @ src @ [newline] @ ''Message:'' @ [newline] @
     (case pretty (trim d) of Some p \<Rightarrow> p | None \<Rightarrow> trim d) @ [newline] @ [newline])"

lemma unat_suc_small: "unat (w :: u32) + Suc n < 2 ^ 31 \<Longrightarrow> unat (w + 1) = Suc (unat w)"
  by (simp add: unat_add_lem [THEN iffD1])

lemma udp_rounds_print:
  assumes "\<forall>d src. Inr (d, src) \<in> set rs \<longrightarrow> length d \<le> 2048 \<and> utf8_valid d"
    and "unat (qc_messages c) + length (received rs) < 2 ^ 31"
  shows "fold (udp_round pretty) rs c =
     c\<lparr>qc_messages := qc_messages c + of_nat (length (received rs)),
       qc_stdout := qc_stdout c @ concat (map (quote_block pretty)
         (zip [Suc (unat (qc_messages c))..<Suc (unat (qc_messages c) + length (received rs))] (received rs)))\<rparr>"
  using assms
proof (induction rs arbitrary: c)
  case (Cons r rs)
  show ?case
  proof (cases r)
    case (Inl e)
    with Cons show ?thesis by (simp add: udp_round_def)
  next
    case (Inr d)
    obtain b src where d: "d = (b, src)" by fastforce
    let ?c = "c\<lparr>qc_messages := qc_messages c + 1,
        qc_stdout := qc_stdout c @ quote_block pretty (Suc (unat (qc_messages c)), b, src)\<rparr>"
    have "length b \<le> 2048" and "utf8_valid b" using Cons.prems Inr d by auto
    moreover have n: "unat (qc_messages c + 1) = Suc (unat (qc_messages c))"
      using Cons.prems(2) Inr by (intro unat_suc_small) simp
    ultimately have "udp_round pretty r c = ?c"
      using Cons.prems(2) Inr
      by (cases "pretty (trim b)") (simp_all add: udp_round_def d from_utf8_lossy_valid Let_def quote_block_def show_i32_def)
    moreover have "[Suc (unat (qc_messages c))..<Suc (unat (qc_messages c) + length (received (r # rs)))] =
        Suc (unat (qc_messages c)) # [Suc (unat (qc_messages ?c))..<Suc (unat (qc_messages ?c) + length (received rs))]"
      using Inr n by (simp add: upt_conv_Cons del: upt_Suc)
    moreover have "\<forall>d src. Inr (d, src) \<in> set rs \<longrightarrow> length d \<le> 2048 \<and> utf8_valid d"
      using Cons.prems by simp
    moreover have "unat (qc_messages ?c) + length (received rs) < 2 ^ 31" using Cons.prems(2) Inr n by simp
    ultimately show ?thesis using Inr Cons.IH [of ?c] by (simp add: d add.assoc [symmetric] del: upt_Suc)
  qed
qed simp

text \<open>
  The UDP thread prints every datagram it receives, in order and numbered without gaps,
  as long as each is valid UTF-8 and fits the buffer of 2048 bytes, and the count fits an
  \<^verbatim>\<open>i32\<close>; receive errors change nothing.
\<close>

lemma udp_listener_prints:
  assumes "\<forall>d src. Inr (d, src) \<in> set rs \<longrightarrow> length d \<le> 2048 \<and> utf8_valid d"
    and "unat (qc_messages c) + length (received rs) < 2 ^ 31"
  shows "fold (udp_round pretty) rs c =
     c\<lparr>qc_messages := qc_messages c + of_nat (length (received rs)),
       qc_stdout := qc_stdout c @ concat (map (quote_block pretty)
         (zip [Suc (unat (qc_messages c))..<Suc (unat (qc_messages c) + length (received rs))] (received rs)))\<rparr>"
  using assms by (rule udp_rounds_print)

lemma udp_listener_prints_witness:
  "qc_messages (fold (udp_round (\<lambda>_. None)) [Inr (''{}'', ''1.2.3.4:5''), Inl server_closed, Inr (''1'', ''1.2.3.4:5'')]
     \<lparr>qc_link = new_link, qc_stdout = [], qc_messages = 0\<rparr>) = 2"
  using udp_listener_prints [of "[Inr (''{}'', ''1.2.3.4:5''), Inl server_closed, Inr (''1'', ''1.2.3.4:5'')]"
      "\<lparr>qc_link = new_link, qc_stdout = [], qc_messages = 0\<rparr>" "\<lambda>_. None"]
  by (simp add: utf8_valid_ascii is_ascii_def byte_of_def)


section \<open>The command stream\<close>

text \<open>The command an action sends.\<close>

definition commands_of :: "client_action \<Rightarrow> string list" where
  "commands_of a = (case a of
     KeepAlive ex ios \<Rightarrow> [''PING'']
   | Terminal io \<Rightarrow> (case (ci_flush io, ci_input io) of
       (None, Inr line) \<Rightarrow>
         if trim line = [] \<or> eq_ignore_ascii_case (trim line) ''EXIT'' then [] else [trim line]
     | _ \<Rightarrow> [])
   | Datagram recv \<Rightarrow> [])"

definition wire :: "string list \<Rightarrow> string" where
  "wire cmds = concat (map (\<lambda>l. l @ [newline]) cmds)"

lemma write_parts_all: "write_parts ps rs l = (Inr r, l') \<Longrightarrow> l' = l\<lparr>ln_sent := ln_sent l @ concat ps\<rparr>"
  by (induction ps rs l rule: write_parts.induct) auto

lemma request_sent:
  assumes "request parts ex l = Some (Inr w, l')"
  shows "ln_sent l' = ln_sent l @ concat parts"
  using assms
  by (auto simp: request_def dest!: write_parts_all
      split: prod.splits sum.splits option.splits list.splits read_outcome.splits if_splits)

lemma client_exec_sent:
  assumes "client_exec pretty a (c, r) = Some (c', r')"
  shows "ln_sent (qc_link c') = ln_sent (qc_link c) @ wire (commands_of a) \<or> ln_sent (qc_link c') = []"
proof (cases a)
  case (KeepAlive ex ios)
  with assms show ?thesis
    by (auto simp: client_exec_def keep_alive_round_def send_ping_def commands_of_def wire_def new_link_def
        dest!: request_sent reconnect_new split: option.splits sum.splits if_splits)
next
  case (Terminal io)
  with assms show ?thesis
    by (auto simp: client_exec_def cli_round_def send_command_def commands_of_def wire_def new_link_def Let_def
        dest!: request_sent reconnect_new split: option.splits sum.splits if_splits)
next
  case (Datagram recv)
  with assms show ?thesis
    by (auto simp: client_exec_def udp_round_def commands_of_def wire_def Let_def
        split: option.splits sum.splits prod.splits)
qed

lemma run_client_sent:
  assumes "run_steps (client_exec pretty) as (c0, r0) = Some (c, r)"
    and "hist = old @ cmds" and "ln_sent (qc_link c0) = wire cmds"
  shows "\<exists>old cmds. hist @ concat (map commands_of as) = old @ cmds \<and> ln_sent (qc_link c) = wire cmds"
  using assms
proof (induction as arbitrary: c0 r0 hist old cmds)
  case (Cons a as)
  then obtain c1 r1 where c1: "client_exec pretty a (c0, r0) = Some (c1, r1)"
    and rest: "run_steps (client_exec pretty) as (c1, r1) = Some (c, r)"
    by (auto split: option.splits)
  from client_exec_sent [OF this(1)] show ?case
  proof
    assume "ln_sent (qc_link c1) = ln_sent (qc_link c0) @ wire (commands_of a)"
    then have "ln_sent (qc_link c1) = wire (cmds @ commands_of a)"
      using Cons.prems(3) by (simp add: wire_def)
    from Cons.IH [OF rest _ this, of "hist @ commands_of a" old] Cons.prems(2) show ?thesis by simp
  next
    assume "ln_sent (qc_link c1) = []"
    then have "ln_sent (qc_link c1) = wire []" by (simp add: wire_def)
    from Cons.IH [OF rest _ this, of "hist @ commands_of a" "hist @ commands_of a"] show ?thesis by simp
  qed
qed auto


definition good_connect :: connect_io where
  "good_connect = \<lparr>cn_connect = Inr (), cn_timeout = Inr (), cn_clone = Inr ()\<rparr>"


end
