(* ===== verification/Client_Server.thy ===== *)
theory Client_Server
  imports Quote_Client
begin

text \<open>
  The two programs together: what the client's exchanges achieve against the handler of its
  connection. The server's answer is what the handler appends to the bytes it has written;
  the client reads it in pieces of any size.
\<close>

section \<open>One command\<close>

text \<open>A command as the client sends it: printable ASCII without blanks at its ends.\<close>

definition plain_command :: "string \<Rightarrow> bool" where
  "plain_command cmd \<longleftrightarrow> ascii cmd \<and> cmd \<noteq> [] \<and> \<not> is_space (hd cmd) \<and> \<not> is_space (last cmd) \<and>
     newline \<notin> set cmd"

lemma plain_trim:
  assumes "plain_command cmd"
  shows "trim (cmd @ [newline]) = cmd"
  using assms trim_line [of cmd] by (simp add: plain_command_def newline_def)

lemma plain_valid: "plain_command cmd \<Longrightarrow> utf8_valid (cmd @ [newline])"
  by (intro utf8_valid_ascii) (simp add: plain_command_def newline_def is_ascii_def byte_of_def)

lemma ready_round:
  assumes "co_pc co = Reading" and "co_buf co = []" and "newline \<notin> set l" and "utf8_valid (l @ [newline])"
  shows "conn_round io [Data (l @ [newline])] co s =
     Some (handle_read io (ReadOk (Suc (length l)) (l @ [newline])) co s)"
proof -
  have co: "co\<lparr>co_buf := []\<rparr> = co" using assms(2) by (simp add: assms(2) [symmetric])
  have "read_line (co_buf co) [Data (l @ [newline])] =
      Some (ReadOk (Suc (length l)) (l @ [newline]), [], [])"
    using read_line_whole [OF assms(3)] assms(2,4) by (simp add: line_outcome_def)
  from conn_round_eq [OF assms(1) this, of io s, unfolded co] show ?thesis .
qed

lemma plain_round:
  assumes "co_pc co = Reading" and "co_buf co = []" and "plain_command cmd"
  shows "conn_round io [Data (cmd @ [newline])] co s =
     Some (handle_read io (ReadOk (Suc (length cmd)) (cmd @ [newline])) co s)"
  using ready_round [OF assms(1,2) _ plain_valid [OF assms(3)]] assms(3)
  by (simp add: plain_command_def)

text \<open>The answers a client understands: one line of ASCII.\<close>

definition answer_line :: "string \<Rightarrow> bool" where
  "answer_line w \<longleftrightarrow> (\<exists>a. w = a @ [newline] \<and> ascii a \<and> newline \<notin> set a)"

lemma answer_lineI: "ascii a \<Longrightarrow> newline \<notin> set a \<Longrightarrow> answer_line (a @ [newline])"
  unfolding answer_line_def by blast

lemma answer_lines:
  "answer_line (''PONG'' @ [newline])" "answer_line (''STOP OK'' @ [newline])"
  "answer_line (''STREAM OK'' @ [newline])" "answer_line (''ERR Invalid command'' @ [newline])"
  using answer_lineI [of "''PONG''"] answer_lineI [of "''STOP OK''"] answer_lineI [of "''STREAM OK''"]
    answer_lineI [of "''ERR Invalid command''"]
  by (simp_all add: newline_def is_ascii_def byte_of_def)

lemma answered_request:
  assumes "data_events evs" and "event_bytes evs = w" and "answer_line w" and "ln_buf l = []"
  shows "request parts (good_exchange evs) l = Some (Inr w, l\<lparr>ln_sent := ln_sent l @ concat parts\<rparr>)"
proof -
  obtain a where a: "w = a @ [newline]" "ascii a" "newline \<notin> set a"
    using assms(3) unfolding answer_line_def by blast
  have "utf8_valid (a @ [newline])"
    using a(2) by (intro utf8_valid_ascii) (simp add: newline_def is_ascii_def byte_of_def)
  from request_answered [OF assms(1) a(3) this _ assms(4)] assms(2) a(1) show ?thesis by simp
qed

lemma cli_answered:
  assumes "plain_command cmd" and "\<not> eq_ignore_ascii_case cmd ''EXIT''" and "ln_buf (qc_link c) = []"
    and "data_events evs" and "event_bytes evs = w" and "answer_line w"
  shows "cli_round None (Inr (cmd @ [newline])) (good_exchange evs) ios c = Some (Continue,
     c\<lparr>qc_link := (qc_link c)\<lparr>ln_sent := ln_sent (qc_link c) @ cmd @ [newline]\<rparr>,
       qc_stdout := qc_stdout c @ ''quote-client> '' @ w\<rparr>)"
  using assms(1,2) answered_request [OF assms(4-6,3), of "[cmd, [newline]]"]
  by (simp add: cli_round_def plain_trim plain_command_def send_command_def Let_def)


text \<open>The text of a subscription is such a command.\<close>

lemma stream_plain:
  assumes "word addr" and "list_all word ts"
  shows "plain_command (stream_line addr ts)" and "\<not> eq_ignore_ascii_case (stream_line addr ts) ''EXIT''"
proof -
  have nw: "newline \<notin> set t" if "word t" for t using that by (auto simp: word_def newline_def)
  then have "\<forall>t \<in> set ts. newline \<notin> set t" using assms(2) by (auto simp: list_all_iff)
  with nw [OF assms(1)] have "newline \<notin> set (stream_line addr ts)"
    by (auto simp: stream_line_def newline_def)
  moreover have "stream_line addr ts \<noteq> []" "hd (stream_line addr ts) = CHR ''S''"
    by (simp_all add: stream_line_def)
  ultimately show "plain_command (stream_line addr ts)"
    using stream_line_words(1,3) [OF assms] by (simp add: plain_command_def is_space_iff byte_of_def)
  show "\<not> eq_ignore_ascii_case (stream_line addr ts) ''EXIT''"
    by (simp add: eq_ignore_ascii_case_def stream_line_def ascii_lower_def byte_of_def)
qed


section \<open>Properties\<close>

text \<open>
  C16: the keep-alive exchange works. On an idle connection the server answers the client's
  \<open>PING\<close>, resets its keep-alive clock and changes nothing else; however the answer is cut
  into reads, the client accepts it.
\<close>

theorem ping_pong:
  assumes "co_pc co = Reading" and "co_buf co = []" and "io_write io = Inr ()" and "ln_buf l = []"
  shows "\<exists>w. conn_round io [Data (''PING'' @ [newline])] co s =
       Some (co\<lparr>co_last_ping := io_now io, co_written := co_written co @ w\<rparr>, s) \<and>
     (\<forall>evs. data_events evs \<and> event_bytes evs = w \<longrightarrow>
        send_ping (good_exchange evs) l = Some (Inr (), l\<lparr>ln_sent := ln_sent l @ ''PING'' @ [newline]\<rparr>))"
proof (intro exI conjI allI impI)
  have p: "plain_command ''PING''"
    by (simp add: plain_command_def is_ascii_def byte_of_def is_space_iff newline_def)
  have co: "co\<lparr>co_last_ping := io_now io, co_written := w, co_pc := Reading\<rparr> =
      co\<lparr>co_last_ping := io_now io, co_written := w\<rparr>" for w
    using assms(1) by (cases co) simp
  have "handle_read io (ReadOk (Suc (length ''PING'')) (''PING'' @ [newline])) co s =
      (co\<lparr>co_last_ping := io_now io, co_written := co_written co @ ''PONG'' @ [newline], co_pc := Reading\<rparr>, s)"
    using assms(3) plain_trim [OF p]
    by (simp add: handle_read_def handle_line_def handle_ping_def reply_ok starts_with_def Let_def)
  then show "conn_round io [Data (''PING'' @ [newline])] co s =
      Some (co\<lparr>co_last_ping := io_now io, co_written := co_written co @ ''PONG'' @ [newline]\<rparr>, s)"
    using plain_round [OF assms(1,2) p, of io s] by (simp add: co)
next
  fix evs
  assume "data_events evs \<and> event_bytes evs = ''PONG'' @ [newline]"
  then have "request [''PING'' @ [newline]] (good_exchange evs) l =
      Some (Inr (''PONG'' @ [newline]), l\<lparr>ln_sent := ln_sent l @ concat [''PING'' @ [newline]]\<rparr>)"
    using answer_lines(1) assms(4) by (intro answered_request) auto
  moreover have "trim (''PONG'' @ [newline]) = ''PONG''"
    by (rule plain_trim) (simp add: plain_command_def is_ascii_def byte_of_def is_space_iff newline_def)
  ultimately show "send_ping (good_exchange evs) l =
      Some (Inr (), l\<lparr>ln_sent := ln_sent l @ ''PING'' @ [newline]\<rparr>)"
    by (simp add: send_ping_def)
qed

theorem ping_pong_witness:
  "\<exists>w. conn_round (good_io 9) [Data (''PING'' @ [newline])] fresh_connection example_tcp_server =
     Some (fresh_connection\<lparr>co_last_ping := 9, co_written := w\<rparr>, example_tcp_server)"
  using ping_pong [of fresh_connection "good_io 9" new_link example_tcp_server]
  by (auto simp: fresh_connection_def open_connection_def good_io_def new_link_def)

text \<open>
  A \<open>STREAM\<close> command typed at the client subscribes: the server registers exactly the
  typed tickers and address, and the client prints its \<open>STREAM OK\<close>.
\<close>

lemma typed_stream_subscribes:
  assumes "serving s" and "clients s (clients_count s) = None" and "ts \<noteq> []" and "list_all word ts"
    and "co_pc co = Reading" and "co_buf co = []" and "io_write io = Inr ()" and "io_bind io = Inr ()"
    and "ln_buf (qc_link c) = []" and "line = stream_line (show_v4 a b d e p) ts"
  shows "\<exists>w co' s'. conn_round io [Data (line @ [newline])] co s = Some (co', s') \<and>
     co_written co' = co_written co @ w \<and>
     subscriptions s' = (subscriptions s)(clients_count s \<mapsto> (ts, udp_callback (SocketV4 a b d e p))) \<and>
     (\<forall>evs. data_events evs \<and> event_bytes evs = w \<longrightarrow>
        cli_round None (Inr (line @ [newline])) (good_exchange evs) ios c = Some (Continue,
          c\<lparr>qc_link := (qc_link c)\<lparr>ln_sent := ln_sent (qc_link c) @ line @ [newline]\<rparr>,
            qc_stdout := qc_stdout c @ ''quote-client> '' @ w\<rparr>))"
proof -
  have np: "\<not> clients_poisoned s" using assms(1) by (simp add: serving_def)
  note p = stream_plain(1) [OF show_v4_word assms(4), of a b d e p, folded assms(10)]
    and ex = stream_plain(2) [OF show_v4_word assms(4), of a b d e p, folded assms(10)]
  have "handle_read io (ReadOk (Suc (length line)) (line @ [newline])) co s =
      (co\<lparr>co_last_ping := io_now io, co_client_id := Some (clients_count s),
          co_written := co_written co @ ''STREAM OK'' @ [newline], co_pc := Reading\<rparr>,
       snd (add_client ts (udp_callback (SocketV4 a b d e p)) s))"
    unfolding assms(10) by (rule stream_line_read [OF np assms(2-4,7,8)]) simp
  then have "conn_round io [Data (line @ [newline])] co s =
      Some (co\<lparr>co_last_ping := io_now io, co_client_id := Some (clients_count s),
          co_written := co_written co @ ''STREAM OK'' @ [newline], co_pc := Reading\<rparr>,
       snd (add_client ts (udp_callback (SocketV4 a b d e p)) s))"
    using plain_round [OF assms(5,6) p, of io s] by simp
  moreover have "subscriptions (snd (add_client ts (udp_callback (SocketV4 a b d e p)) s)) =
      (subscriptions s)(clients_count s \<mapsto> (ts, udp_callback (SocketV4 a b d e p)))"
    using clients_registry.subs_add [OF assms(1), of "(ts, udp_callback (SocketV4 a b d e p))"]
    by (simp add: add_sub_def)
  ultimately show ?thesis
    using cli_answered [OF p ex assms(9) _ _ answer_lines(3)]
    by (intro exI [of _ "''STREAM OK'' @ [newline]"]) auto
qed

lemma typed_stream_subscribes_witness:
  "\<exists>w co' s'. conn_round (good_io 7)
       [Data (stream_line (show_v4 127 0 0 1 50000) [''AAPL''] @ [newline])] fresh_connection example_tcp_server =
     Some (co', s') \<and> co_written co' = co_written fresh_connection @ w \<and>
     subscriptions s' = (subscriptions example_tcp_server)(0 \<mapsto> ([''AAPL''], udp_callback (SocketV4 127 0 0 1 50000)))"
proof -
  have s: "serving example_tcp_server" "clients_count example_tcp_server = 0"
    "clients example_tcp_server (clients_count example_tcp_server) = None"
    using example_tcp_server_serving by (simp_all add: serving_def)
  have t: "[''AAPL''] \<noteq> []" "list_all word [''AAPL'']"
    by (simp_all add: word_def is_ascii_def is_space_iff byte_of_def)
  have co: "co_pc fresh_connection = Reading" "co_buf fresh_connection = []"
    "io_write (good_io 7) = Inr ()" "io_bind (good_io 7) = Inr ()"
    by (simp_all add: fresh_connection_def open_connection_def good_io_def)
  have l: "ln_buf (qc_link \<lparr>qc_link = new_link, qc_stdout = [], qc_messages = 0\<rparr>) = []"
    by (simp add: new_link_def)
  show ?thesis
    using typed_stream_subscribes [OF s(1,3) t co l refl, of 127 0 0 1 50000 "[]"] s(2) by auto
qed

text \<open>
  Any other command typed at the client, on a connection without a subscription, is
  answered with one line, which the client prints: \<open>PONG\<close>, \<open>STOP OK\<close> or \<open>ERR Invalid command\<close>
  by its first letters; the server is unchanged.
\<close>

lemma typed_command_answered:
  assumes "plain_command cmd" and "\<not> eq_ignore_ascii_case cmd ''EXIT''" and "answer cmd = Some w"
    and "co_pc co = Reading" and "co_buf co = []" and "co_client_id co = None" and "io_write io = Inr ()"
    and "ln_buf (qc_link c) = []"
  shows "\<exists>co'. conn_round io [Data (cmd @ [newline])] co s = Some (co', s) \<and>
     co_written co' = co_written co @ w \<and> co_pc co' = Reading \<and>
     (\<forall>evs. data_events evs \<and> event_bytes evs = w \<longrightarrow>
        cli_round None (Inr (cmd @ [newline])) (good_exchange evs) ios c = Some (Continue,
          c\<lparr>qc_link := (qc_link c)\<lparr>ln_sent := ln_sent (qc_link c) @ cmd @ [newline]\<rparr>,
            qc_stdout := qc_stdout c @ ''quote-client> '' @ w\<rparr>))"
proof -
  have "cmd \<noteq> []" using assms(1) by (simp add: plain_command_def)
  then have w: "answer_line w"
    using assms(3) answer_lines by (auto simp: answer_def split: if_splits)
  have "handle_read io (ReadOk (Suc (length cmd)) (cmd @ [newline])) co s =
      (co\<lparr>co_last_ping := io_now io, co_written := co_written co @ w, co_pc := Reading\<rparr>, s)"
    using assms(3,6,7) plain_trim [OF assms(1)]
    by (auto simp: conn_defs answer_def reply_ok split: if_splits option.splits)
  then show ?thesis
    using plain_round [OF assms(4,5,1), of io s] cli_answered [OF assms(1,2,8) _ _ w] by simp
qed

lemma typed_command_answered_witness:
  "\<exists>co'. conn_round (good_io 7) [Data (''HELLO'' @ [newline])] fresh_connection example_tcp_server =
     Some (co', example_tcp_server) \<and> co_written co' = co_written fresh_connection @ ''ERR Invalid command'' @ [newline]"
proof -
  have p: "plain_command ''HELLO''"
    by (simp add: plain_command_def is_ascii_def byte_of_def is_space_iff newline_def)
  have e: "\<not> eq_ignore_ascii_case ''HELLO'' ''EXIT''" "answer ''HELLO'' = Some (''ERR Invalid command'' @ [newline])"
    by (simp_all add: eq_ignore_ascii_case_def answer_def starts_with_def)
  have co: "co_pc fresh_connection = Reading" "co_buf fresh_connection = []" "co_client_id fresh_connection = None"
    "io_write (good_io 7) = Inr ()"
    by (simp_all add: fresh_connection_def open_connection_def good_io_def)
  have l: "ln_buf (qc_link \<lparr>qc_link = new_link, qc_stdout = [], qc_messages = 0\<rparr>) = []"
    by (simp add: new_link_def)
  show ?thesis using typed_command_answered [OF p e co l, of example_tcp_server "[]"] by auto
qed

text \<open>
  C20: a malformed \<open>STREAM\<close> command costs the client its connection. The server closes it
  without an answer; the client takes the end of file for a failure, prints nothing, and
  connects anew, on a connection for which the server has no subscription. A client the
  old connection had registered stays registered.
\<close>

theorem typed_malformed_stream_reconnects:
  assumes "plain_command cmd" and "starts_with cmd ''STREAM ''"
    and "length (split_whitespace cmd) < 3 \<or> parse_socket_addr (split_whitespace cmd ! 1) = None"
    and "co_pc co = Reading" and "co_buf co = []" and "ln_buf (qc_link c) = []"
    and "reconnect ios = Some (t, l)"
  shows "(\<exists>m. conn_round io [Data (cmd @ [newline])] co s =
       Some (co\<lparr>co_last_ping := io_now io, co_pc := Closed (Inl (InvalidCommand m))\<rparr>, s)) \<and>
     cli_round None (Inr (cmd @ [newline])) (good_exchange [Eof]) ios c =
       Some (Continue, c\<lparr>qc_link := l, qc_stdout := qc_stdout c @ ''quote-client> ''\<rparr>) \<and>
     ln_sent l = []"
proof (intro conjI)
  have "\<exists>m. handle_read io (ReadOk (Suc (length cmd)) (cmd @ [newline])) co s =
      (co\<lparr>co_last_ping := io_now io, co_pc := Closed (Inl (InvalidCommand m))\<rparr>, s)"
    using assms(2,3) plain_trim [OF assms(1)] command_stream [OF assms(2)]
    by (auto simp: handle_read_def handle_line_def handle_stream_def Let_def)
  then show "\<exists>m. conn_round io [Data (cmd @ [newline])] co s =
      Some (co\<lparr>co_last_ping := io_now io, co_pc := Closed (Inl (InvalidCommand m))\<rparr>, s)"
    using plain_round [OF assms(4,5,1), of io s] by simp
next
  have "\<not> eq_ignore_ascii_case cmd ''EXIT''"
    using assms(2) by (auto simp: starts_with_def eq_ignore_ascii_case_def dest: arg_cong [of _ _ length])
  then show "cli_round None (Inr (cmd @ [newline])) (good_exchange [Eof]) ios c =
      Some (Continue, c\<lparr>qc_link := l, qc_stdout := qc_stdout c @ ''quote-client> ''\<rparr>)"
    using assms(1,7) request_closed [OF assms(6), of "[cmd, [newline]]"] plain_trim [OF assms(1)]
    by (simp add: cli_round_def send_command_def plain_command_def Let_def)
next
  show "ln_sent l = []"
    using reconnect_new [OF assms(7)] by (simp add: new_link_def)
qed

theorem typed_malformed_stream_reconnects_witness:
  "cli_round None (Inr (stream_line ''x'' [] @ [newline])) (good_exchange [Eof]) [good_connect]
     \<lparr>qc_link = new_link, qc_stdout = [], qc_messages = 0\<rparr> =
   Some (Continue, \<lparr>qc_link = new_link, qc_stdout = ''quote-client> '', qc_messages = 0\<rparr>)"
proof -
  have w: "word ''x''" "list_all word []" by (simp_all add: word_def is_ascii_def is_space_iff byte_of_def)
  have p: "plain_command (stream_line ''x'' [])"
    by (simp add: plain_command_def stream_line_def is_ascii_def byte_of_def is_space_iff newline_def)
  have co: "co_pc fresh_connection = Reading" "co_buf fresh_connection = []"
    by (simp_all add: fresh_connection_def open_connection_def)
  have c: "ln_buf (qc_link \<lparr>qc_link = new_link, qc_stdout = [], qc_messages = 0\<rparr>) = []"
    "reconnect [good_connect] = Some (0, new_link)"
    by (simp_all add: new_link_def good_connect_def connect_def)
  show ?thesis
    using typed_malformed_stream_reconnects [OF p stream_line_trim(2) [OF w] _ co c, of "good_io 0" example_tcp_server]
      stream_line_words(2) [OF w] by simp
qed

text \<open>
  C21: leaving the client does not end its subscription. \<open>EXIT\<close>, in any case of letters,
  ends the command loop without sending anything, and the server's handler, which then
  reads the end of the stream, returns with the client still registered.
\<close>

theorem exit_leaves_subscription:
  assumes "plain_command cmd" and "eq_ignore_ascii_case cmd ''EXIT''"
    and "co_pc co = Reading" and "co_buf co = []"
  shows "(\<exists>c'. cli_round None (Inr (cmd @ [newline])) ex ios c = Some (Exit (Inr ()), c') \<and> qc_link c' = qc_link c) \<and>
     conn_round io [Eof] co s = Some (co\<lparr>co_pc := Closed (Inr ())\<rparr>, s)"
proof
  show "\<exists>c'. cli_round None (Inr (cmd @ [newline])) ex ios c = Some (Exit (Inr ()), c') \<and> qc_link c' = qc_link c"
    using assms(1,2) plain_trim [OF assms(1)] by (simp add: cli_round_def plain_command_def Let_def)
next
  have co: "co\<lparr>co_buf := []\<rparr> = co" using assms(4) by (simp add: assms(4) [symmetric])
  have "read_line (co_buf co) [Eof] = Some (ReadOk 0 [], [], [])"
    using assms(4) by (simp add: read_line_def read_until.simps line_outcome_def utf8_valid_def)
  from conn_round_eq [OF assms(3) this, of io s, unfolded co]
  show "conn_round io [Eof] co s = Some (co\<lparr>co_pc := Closed (Inr ())\<rparr>, s)"
    by (simp add: handle_read_def)
qed

theorem exit_leaves_subscription_witness:
  "conn_round (good_io 3) [Eof] (fresh_connection\<lparr>co_client_id := Some 0\<rparr>) subscribed_server =
     Some (fresh_connection\<lparr>co_client_id := Some 0, co_pc := Closed (Inr ())\<rparr>, subscribed_server) \<and>
   clients subscribed_server 0 \<noteq> None"
proof -
  have p: "plain_command ''exit''"
    by (simp add: plain_command_def is_ascii_def byte_of_def is_space_iff newline_def)
  have e: "eq_ignore_ascii_case ''exit'' ''EXIT''" by code_simp
  have co: "co_pc (fresh_connection\<lparr>co_client_id := Some 0\<rparr>) = Reading"
    "co_buf (fresh_connection\<lparr>co_client_id := Some 0\<rparr>) = []"
    by (simp_all add: fresh_connection_def open_connection_def)
  show ?thesis
    using exit_leaves_subscription [OF p e co, of "good_exchange []" "[]"
        "\<lparr>qc_link = new_link, qc_stdout = [], qc_messages = 0\<rparr>" "good_io 3" subscribed_server]
    by (simp add: subscribed_server_clients)
qed

end
