(* ===== verification/Quote_Delivery.thy ===== *)
theory Quote_Delivery
  imports System_Properties Client_Server
begin

text \<open>
  From the quotes of the server to the terminal of the client: the steps of the server
  program that serve one notification, followed by the rounds of the client's UDP thread.
\<close>

lemma received_datagrams: "received (map Inr ds) = ds"
  by (induction ds) simp_all

text \<open>
  C4: how quotes reach the terminal. When the background thread is about to notify and the
  thread of a registered client is idle, the notification and that thread's steps send one
  datagram per configured ticker of the subscription to the subscribed address; and a client that
  receives these datagrams, in order, prints the JSON of each of those quotes, as its
  layout has it, with consecutive numbers, after whatever it has printed before and with
  receive timeouts in between changing nothing. The JSON texts have to be valid
  UTF-8 of at most 2048 bytes, the size of the client's buffer.
\<close>

theorem quotes_reach_terminal:
  assumes "reachable (started ext dbg) (exec ext dbg) S" and "sys_exit S = None"
    and "bg_threads (sys_server S) 0 = Some BgNotifying" and "\<not> clients_locked (sys_server S)"
    and "orders_ok ext p ids (sys_server S)" and "clients (sys_server S) cid = Some c"
    and "cl_tx c = Some t" and "cl_callback c = udp_callback addr"
    and "rt_threads (sys_server S) t = Some th" and "th_pc th = Receiving" and "ch_queue (th_chan th) = []"
    and "ms = messages (x_ser ext) (quotes (sys_server S)) (cl_tickers c)"
    and "\<forall>m \<in> set ms. length m \<le> 2048 \<and> utf8_valid m"
    and "received rs = map (\<lambda>m. (m, src)) ms" and "unat (qc_messages d) + length ms < 2 ^ 31"
  shows "(\<exists>S'. run_steps (exec ext dbg)
       (Background 0 p ids # replicate (length (cl_tickers c) + 2) (ClientThread t)) S = Some S' \<and>
     rt_world (sys_server S') = rt_world (sys_server S) @ map (\<lambda>m. (addr, m)) ms) \<and>
     fold (udp_round pretty) rs d = d\<lparr>qc_messages := qc_messages d + of_nat (length ms),
       qc_stdout := qc_stdout d @ concat (map (quote_block pretty)
         (zip [Suc (unat (qc_messages d))..<Suc (unat (qc_messages d) + length ms)] (map (\<lambda>m. (m, src)) ms)))\<rparr>"
proof
  show "\<exists>S'. run_steps (exec ext dbg)
       (Background 0 p ids # replicate (length (cl_tickers c) + 2) (ClientThread t)) S = Some S' \<and>
     rt_world (sys_server S') = rt_world (sys_server S) @ map (\<lambda>m. (addr, m)) ms"
    unfolding assms(12) by (rule notification_delivers_aux [OF assms(1-11)])
next
  have "(m, a) \<in> set (received rs)" if "Inr (m, a) \<in> set rs" for m a
    using that by (induction rs rule: received.induct) auto
  then have "\<forall>m a. Inr (m, a) \<in> set rs \<longrightarrow> length m \<le> 2048 \<and> utf8_valid m"
    using assms(13,14) by fastforce
  from udp_rounds_print [OF this, of d pretty] assms(14,15)
  show "fold (udp_round pretty) rs d = d\<lparr>qc_messages := qc_messages d + of_nat (length ms),
       qc_stdout := qc_stdout d @ concat (map (quote_block pretty)
         (zip [Suc (unat (qc_messages d))..<Suc (unat (qc_messages d) + length ms)] (map (\<lambda>m. (m, src)) ms)))\<rparr>"
    by simp
qed

theorem quotes_reach_terminal_witness:
  "\<exists>S S'. reachable (started example_ext example_dbg) (exec example_ext example_dbg) S \<and>
     run_steps (exec example_ext example_dbg)
       (Background 0 example_pass [0] # replicate 3 (ClientThread 0)) S = Some S' \<and>
     rt_world (sys_server S') = [(example_addr, ''json'')] \<and>
     fold (udp_round (\<lambda>_. None)) [Inl server_closed, Inr (''json'', ''1.2.3.4:5'')]
       \<lparr>qc_link = new_link, qc_stdout = [], qc_messages = 0\<rparr> =
     \<lparr>qc_link = new_link, qc_stdout = quote_block (\<lambda>_. None) (1, ''json'', ''1.2.3.4:5''), qc_messages = 1\<rparr>"
proof -
  obtain S where r: "reachable (started example_ext example_dbg) (exec example_ext example_dbg) S"
    and S: "sys_exit S = None" "bg_threads (sys_server S) 0 = Some BgNotifying" "\<not> clients_locked (sys_server S)"
    and c: "clients (sys_server S) = clients (subscribed_server0 [''AAPL''])"
      "rt_threads (sys_server S) = rt_threads (subscribed_server0 [''AAPL''])"
    and q: "dom (quotes (sys_server S)) = {''AAPL''}" and w: "rt_world (sys_server S) = []"
    using example_run_notifying [OF tickers_ok_examples(1)] by blast
  note ex = example_notified [OF S(1) c q w]
  let ?d = "\<lparr>qc_link = new_link, qc_stdout = [], qc_messages = 0\<rparr>"
  let ?rs = "[Inl server_closed, Inr (''json'', ''1.2.3.4:5'')]"
  have m: "\<forall>m \<in> set [''json'']. length m \<le> 2048 \<and> utf8_valid m" "received ?rs = map (\<lambda>m. (m, ''1.2.3.4:5'')) [''json'']"
    "unat (qc_messages ?d) + length [''json''] < 2 ^ 31"
    by (simp_all add: utf8_valid_ascii is_ascii_def byte_of_def)
  have e: "[''json''] = messages (x_ser example_ext) (quotes (sys_server S)) (cl_tickers (started_client [''AAPL''] (udp_callback example_addr) 0))"
    using ex(7) by (simp add: started_client_def del: messages_simps)
  note both = quotes_reach_terminal [OF r S example_orders [OF c(1) q] ex(1-6) e m, of "\<lambda>_. None"]
  have sent: "\<exists>S'. run_steps (exec example_ext example_dbg)
       (Background 0 example_pass [0] # replicate 3 (ClientThread 0)) S = Some S' \<and>
     rt_world (sys_server S') = [(example_addr, ''json'')]"
    using conjunct1 [OF both] w by (simp add: started_client_def numeral_3_eq_3 del: run_steps.simps)
  have "fold (udp_round (\<lambda>_. None)) ?rs ?d =
     \<lparr>qc_link = new_link, qc_stdout = quote_block (\<lambda>_. None) (1, ''json'', ''1.2.3.4:5''), qc_messages = 1\<rparr>"
    using conjunct2 [OF both] by simp
  with r sent show ?thesis by blast
qed

end
