(* ===== verification/Client_Ids.thy ===== *)
theory Client_Ids
  imports System_Properties
begin

text \<open>
  Who remembers which client: each step of the system adds one client under the next id,
  removes the one client the acting connection remembers, or leaves the registry alone.
  From this follow, for runs shorter than \<open>2 ^ 64\<close> steps, that ids are not confused, and
  that a client no connection remembers stays registered.
\<close>

section \<open>Remembered ids\<close>

text \<open>
  A handler that has returned remembers nothing; a \<open>STREAM\<close> handler that still waits to
  store its id remembers it.
\<close>

definition open_conn :: "connection \<Rightarrow> bool" where
  "open_conn co \<longleftrightarrow> (case co_pc co of Closed _ \<Rightarrow> False | _ \<Rightarrow> True)"

definition holds :: "connection \<Rightarrow> u64 \<Rightarrow> bool" where
  "holds co cid \<longleftrightarrow> open_conn co \<and> co_client_id co = Some cid \<or>
     (\<exists>t. co_pc co = Joining t (AfterStream (Inr cid)))"

definition held :: "system \<Rightarrow> nat \<Rightarrow> u64 \<Rightarrow> bool" where
  "held S i cid \<longleftrightarrow> (\<exists>co. sys_conns S i = Some co \<and> holds co cid)"

definition registered :: "system \<Rightarrow> u64 \<rightharpoonup> datagrams client" where
  "registered S = clients (sys_server S)"

definition next_id :: "system \<Rightarrow> u64" where
  "next_id S = clients_count (sys_server S)"

lemma holds_not_joining:
  "joining co = None \<Longrightarrow> holds co cid \<longleftrightarrow> open_conn co \<and> co_client_id co = Some cid"
  by (auto simp: holds_def joining_def)

text \<open>The three kinds of steps.\<close>

definition keeps :: "system \<Rightarrow> system \<Rightarrow> bool" where
  "keeps S S' \<longleftrightarrow> registered S' = registered S \<and> next_id S' = next_id S \<and>
     (\<forall>i cid. held S' i cid \<longrightarrow> held S i cid)"

definition adds :: "nat \<Rightarrow> system \<Rightarrow> system \<Rightarrow> bool" where
  "adds i S S' \<longleftrightarrow> (\<exists>c. registered S' = (registered S)(next_id S \<mapsto> c)) \<and> next_id S' = next_id S + 1 \<and>
     (\<forall>j cid. held S' j cid \<longrightarrow> j = i \<and> cid = next_id S \<or> held S j cid)"

definition removes :: "nat \<Rightarrow> u64 \<Rightarrow> system \<Rightarrow> system \<Rightarrow> bool" where
  "removes i cid S S' \<longleftrightarrow> held S i cid \<and> registered S' = (registered S)(cid := None) \<and>
     next_id S' = next_id S \<and> (\<forall>j c. held S' j c \<longrightarrow> j \<noteq> i \<and> held S j c)"

lemmas registry_defs = keeps_def adds_def removes_def registered_def next_id_def

lemma held_conn:
  "held (S\<lparr>sys_conns := (sys_conns S)(k \<mapsto> co), sys_server := s\<rparr>) i cid \<longleftrightarrow>
   (if i = k then holds co cid else held S i cid)"
  by (simp add: held_def)

lemma round_effect_registry:
  assumes eff: "round_effect h co (sys_server S) co' s'" and sv: "serving (sys_server S)"
    and co: "sys_conns S k = Some co" and pc: "co_pc co = Reading"
    and S': "S' = S\<lparr>sys_conns := (sys_conns S)(k \<mapsto> co'), sys_server := s'\<rparr>"
  shows "keeps S S' \<or> adds k S S' \<or> (\<exists>cid. removes k cid S S')"
proof -
  have hk: "held S k cid \<longleftrightarrow> co_client_id co = Some cid" for cid
    using co pc by (simp add: held_def holds_def open_conn_def)
  have hS: "held S' i cid \<longleftrightarrow> (if i = k then holds co' cid else held S i cid)" for i cid
    by (simp add: S' held_conn)
  show ?thesis
  proof (cases h)
    case NoCall
    with eff have "s' = sys_server S" "joining co' = None" "co_client_id co' = co_client_id co"
      by (simp_all add: round_effect_def)
    then have "keeps S S'"
      using hk hS by (auto simp: keeps_def registered_def next_id_def S' holds_not_joining)
    then show ?thesis ..
  next
    case (Adds r)
    then obtain ts addr where a: "add_client ts (udp_callback addr) (sys_server S) = (r, s')"
      using eff by (auto simp: round_effect_def)
    have f: "clients s' = (clients (sys_server S))(clients_count (sys_server S) \<mapsto>
        started_client ts (udp_callback addr) (rt_next (sys_server S)))"
      "clients_count s' = clients_count (sys_server S) + 1"
      using add_client_fields [OF sv, of ts "udp_callback addr"] a by simp_all
    have np: "\<not> clients_poisoned (sys_server S)" using sv by (simp add: serving_def)
    have r: "r = Done (Inr (next_id S)) \<or> (\<exists>t. r = Join t (Inr (next_id S)))"
      using add_client_result [OF sv a] by (simp add: next_id_def)
    have "holds co' cid \<longrightarrow> cid = next_id S \<or> co_client_id co = Some cid" for cid
      using eff Adds r by (auto simp: round_effect_def holds_not_joining) (auto simp: holds_def)
    then have "adds k S S'"
      using f hk hS by (auto simp: adds_def registered_def next_id_def S')
    then show ?thesis by blast
  next
    case (Removes cid r)
    then have rm: "remove_client cid (sys_server S) = (r, s')" and cid: "co_client_id co = Some cid"
      and none: "co_client_id co' = None"
      and j: "case r of Done _ \<Rightarrow> joining co' = None
        | Join t r' \<Rightarrow> joining co' = Some t \<and> (\<forall>r''. co_pc co' \<noteq> Joining t (AfterStream r''))"
      using eff by (simp_all add: round_effect_def)
    have f: "clients s' = (clients (sys_server S))(cid := None)"
      "clients_count s' = clients_count (sys_server S)"
      using remove_client_fields [OF sv, of cid] rm by simp_all
    have "\<not> holds co' c" for c
      using none j by (cases r) (auto simp: holds_def joining_def)
    then have "removes k cid S S'"
      using f hk cid hS by (auto simp: removes_def registered_def next_id_def S')
    then show ?thesis by blast
  qed
qed

lemma held_cong: "sys_conns S' = sys_conns S \<Longrightarrow> held S' i cid = held S i cid"
  by (simp add: held_def)

lemma exec_registry:
  assumes inv: "sys_inv (x_ser ext) S" and st: "exec ext dbg a S = Some S'"
  shows "keeps S S' \<or> (\<exists>i. adds i S S') \<or> (\<exists>i cid. removes i cid S S')"
proof -
  let ?s = "sys_server S"
  have sv: "serving ?s" using inv by (simp add: sys_inv_def)
  from st show ?thesis
  proof (cases rule: exec_cases)
    case (thread t s')
    from rt_step_effect [OF thread(1)] show ?thesis by (simp add: registry_defs thread(2) held_def)
  next
    case (background t p ids s')
    then have d: "distinct (pass_order p)" "distinct ids" and si: "server_inv ?s"
      using sv by (auto simp: orders_ok_def serving_def)
    from bg_step_effect [OF si d background(1)] show ?thesis by (simp add: registry_defs background(3) held_def)
  next
    case (accepted r co)
    then have "\<not> holds co cid" for cid
      by (auto simp: accept_round_def open_connection_def holds_def split: sum.splits)
    then have "keeps S S'" by (auto simp: accepted(2) registry_defs held_def split: if_splits)
    then show ?thesis ..
  next
    case (round k io evs co co' s')
    obtain h where "round_effect h co ?s co' s'" using conn_round_effect [OF round(5)] by blast
    from round_effect_registry [OF this sv round(2) conn_round_reading [OF round(5)] round(6)]
    show ?thesis by blast
  next
    case (wake k co co')
    have "holds co' cid \<longleftrightarrow> holds co cid" for cid
      using conn_wake_joining [OF wake(2)] wake(2)
      by (auto simp: holds_not_joining open_conn_def conn_wake_def split: conn_pc.splits)
    then have "keeps S S'" using wake(1) by (simp add: registry_defs wake(3) held_conn) (simp add: held_def)
    then show ?thesis ..
  next
    case (resume k io co co' s')
    obtain t af where pc: "co_pc co = Joining t af" and co': "co' = run_after io af co"
      and cr: "call_resume t ?s = Some s'" using conn_resume_effect [OF resume(2)] by blast
    have "holds co' cid \<longrightarrow> holds co cid" for cid
      using run_after_frame [of io af co] pc
      by (auto simp: co' holds_not_joining) (auto simp: holds_def open_conn_def split: after.splits sum.splits)
    then have "keeps S S'"
      using resume(1) call_resume_effect [OF cr] by (simp add: registry_defs resume(3) held_conn) (auto simp: held_def)
    then show ?thesis ..
  qed (simp_all add: registry_defs held_def)
qed


section \<open>Ids are not confused\<close>

text \<open>
  After \<open>n\<close> additions: the next id is \<open>n\<close>, the registered ids are smaller, and every
  remembered id is registered and remembered by one connection only.
\<close>

definition ids_ok :: "nat \<Rightarrow> system \<Rightarrow> bool" where
  "ids_ok n S \<longleftrightarrow> next_id S = of_nat n \<and>
     (\<forall>cid. registered S cid \<noteq> None \<longrightarrow> unat cid < n) \<and>
     (\<forall>i cid. held S i cid \<longrightarrow> registered S cid \<noteq> None) \<and>
     (\<forall>i j cid. held S i cid \<longrightarrow> held S j cid \<longrightarrow> i = j)"

lemma ids_ok_adds:
  assumes ok: "ids_ok n S" and n: "n < 2 ^ 64" and add: "adds i S S'"
  shows "ids_ok (Suc n) S'"
proof -
  have un: "unat (next_id S) = n" using ok n by (simp add: ids_ok_def unat_of_nat)
  then have fresh: "registered S (next_id S) = None" using ok by (auto simp: ids_ok_def)
  obtain c where c: "registered S' = (registered S)(next_id S \<mapsto> c)" and nx: "next_id S' = next_id S + 1"
    and h: "\<And>j cid. held S' j cid \<Longrightarrow> j = i \<and> cid = next_id S \<or> held S j cid"
    using add unfolding adds_def by blast
  have nh: "\<not> held S j (next_id S)" for j using ok fresh unfolding ids_ok_def by metis
  show ?thesis
    unfolding ids_ok_def
  proof (intro conjI allI impI)
    show "next_id S' = of_nat (Suc n)" using nx ok by (simp add: ids_ok_def)
    show "unat cid < Suc n" if "registered S' cid \<noteq> None" for cid
      using that c un ok by (auto simp: ids_ok_def less_Suc_eq split: if_splits)
    show "registered S' cid \<noteq> None" if "held S' j cid" for j cid
      using h [OF that] c ok by (auto simp: ids_ok_def)
    show "j = k" if "held S' j cid" "held S' k cid" for j k cid
      using h [OF that(1)] h [OF that(2)] nh ok unfolding ids_ok_def by metis
  qed
qed

lemma ids_ok_removes:
  assumes ok: "ids_ok n S" and remove: "removes i cid S S'"
  shows "ids_ok n S'"
proof -
  have r: "registered S' = (registered S)(cid := None)" and nx: "next_id S' = next_id S"
    and hi: "held S i cid" and h: "\<And>j c. held S' j c \<Longrightarrow> j \<noteq> i \<and> held S j c"
    using remove unfolding removes_def by blast+
  have other: "c \<noteq> cid" if "held S' j c" for j c
    using h [OF that] hi ok unfolding ids_ok_def by metis
  show ?thesis
    unfolding ids_ok_def
  proof (intro conjI allI impI)
    show "next_id S' = of_nat n" using nx ok by (simp add: ids_ok_def)
    show "unat c < n" if "registered S' c \<noteq> None" for c
      using that r ok by (auto simp: ids_ok_def split: if_splits)
    show "registered S' c \<noteq> None" if "held S' j c" for j c
      using other [OF that] h [OF that] r ok by (auto simp: ids_ok_def)
    show "j = k" if "held S' j c" "held S' k c" for j k c
      using h [OF that(1)] h [OF that(2)] ok unfolding ids_ok_def by metis
  qed
qed

lemma ids_ok_step:
  assumes ok: "ids_ok n S" and n: "n < 2 ^ 64" and inv: "sys_inv (x_ser ext) S"
    and st: "exec ext dbg a S = Some S'"
  shows "ids_ok n S' \<or> ids_ok (Suc n) S'"
proof -
  consider (keep) "keeps S S'" | (add) i where "adds i S S'" | (remove) i cid where "removes i cid S S'"
    using exec_registry [OF inv st] by blast
  then show ?thesis
  proof cases
    case keep
    with ok have "ids_ok n S'" unfolding ids_ok_def keeps_def by metis
    then show ?thesis ..
  qed (use ids_ok_adds [OF ok n] ids_ok_removes [OF ok] in blast)+
qed

lemma ids_ok_run:
  assumes "run_steps (exec ext dbg) as S = Some S'" and "sys_inv (x_ser ext) S" and "ids_ok n S"
    and "n + length as \<le> 2 ^ 64"
  shows "\<exists>m \<le> n + length as. ids_ok m S'"
  using assms
proof (induction as arbitrary: S n)
  case (Cons a as)
  then obtain T where T: "exec ext dbg a S = Some T" "run_steps (exec ext dbg) as T = Some S'"
    by (auto split: option.splits)
  have inv: "sys_inv (x_ser ext) T" using exec_inv [OF Cons.prems(2) T(1)] .
  have "ids_ok n T \<or> ids_ok (Suc n) T"
    using ids_ok_step [OF Cons.prems(3) _ Cons.prems(2) T(1)] Cons.prems(4) by simp
  then show ?case
  proof
    assume ok: "ids_ok n T"
    obtain m where "m \<le> n + length as" "ids_ok m S'"
      using Cons.IH [OF T(2) inv ok] Cons.prems(4) by auto
    then show ?thesis by (intro exI [of _ m]) simp
  next
    assume ok: "ids_ok (Suc n) T"
    obtain m where "m \<le> Suc n + length as" "ids_ok m S'"
      using Cons.IH [OF T(2) inv ok] Cons.prems(4) by auto
    then show ?thesis by (intro exI [of _ m]) simp
  qed
qed auto

lemma started_ids_ok:
  assumes "started ext dbg S"
  shows "ids_ok 0 S"
proof -
  obtain rnd clk config bind_res clock where m: "server_main ext dbg rnd clk config bind_res clock = Inr S"
    using assms unfolding started_def by blast
  show ?thesis
    by (cases rule: server_main_cases [OF m])
      (simp add: server_start_def initial_server_def ids_ok_def registered_def next_id_def held_def)
qed

text \<open>
  C29: ids are not confused. In every run of at most \<open>2 ^ 64\<close> steps from the start, the id an
  open connection remembers is registered, and no other open connection remembers it.
\<close>

theorem ids_not_confused:
  assumes "started ext dbg S0" and "run_steps (exec ext dbg) as S0 = Some S" and "length as \<le> 2 ^ 64"
    and "sys_conns S i = Some co" and "co_client_id co = Some cid" and "open_conn co"
  shows "clients (sys_server S) cid \<noteq> None \<and>
     (\<forall>j co'. sys_conns S j = Some co' \<longrightarrow> co_client_id co' = Some cid \<longrightarrow> open_conn co' \<longrightarrow> j = i)"
proof -
  have "sys_inv (x_ser ext) S0" using assms(1) server_main_inv unfolding started_def by blast
  from ids_ok_run [OF assms(2) this started_ids_ok [OF assms(1)]] assms(3)
  obtain n where "ids_ok n S" by auto
  then have reg: "\<And>i cid. held S i cid \<Longrightarrow> registered S cid \<noteq> None"
    and uniq: "\<And>i j cid. held S i cid \<Longrightarrow> held S j cid \<Longrightarrow> i = j"
    unfolding ids_ok_def by blast+
  have h: "held S k cid" if "sys_conns S k = Some c" "co_client_id c = Some cid" "open_conn c" for k c
    using that by (auto simp: held_def holds_def)
  have "held S i cid" using h assms(4-6) by blast
  with reg uniq h show ?thesis unfolding registered_def by blast
qed

theorem ids_not_confused_witness:
  "clients (sys_server (example_subscription [''AAPL''])) 0 \<noteq> None"
proof -
  have st: "started example_ext example_dbg example_start"
    unfolding started_def by (intro exI, rule example_started)
  have "sys_conns (example_subscription [''AAPL'']) 0 = Some example_conn"
    by (simp add: example_subscription_def)
  from ids_not_confused [OF st example_run_subscription [OF tickers_ok_examples(1)] _ this example_conn_fields(1)]
  show ?thesis by (simp add: open_conn_def example_conn_fields)
qed


section \<open>Forgotten clients\<close>

lemma orphan_step:
  assumes st: "exec ext dbg a S = Some S'" and inv: "sys_inv (x_ser ext) S"
    and c: "registered S cid = Some c" and free: "\<forall>i. \<not> held S i cid" and nx: "next_id S \<noteq> cid"
  shows "registered S' cid = Some c \<and> (\<forall>i. \<not> held S' i cid) \<and>
     (next_id S' = next_id S \<or> next_id S' = next_id S + 1)"
proof -
  consider (keep) "keeps S S'" | (add) i where "adds i S S'" | (remove) i d where "removes i d S S'"
    using exec_registry [OF inv st] by blast
  then show ?thesis
  proof cases
    case keep
    with c free show ?thesis by (auto simp: keeps_def)
  next
    case (add i)
    with c free nx show ?thesis by (auto simp: adds_def)
  next
    case (remove i d)
    with free have "d \<noteq> cid" by (auto simp: removes_def)
    with remove c free show ?thesis by (auto simp: removes_def)
  qed
qed

lemma orphan_run:
  assumes "run_steps (exec ext dbg) as S = Some S'" and "sys_inv (x_ser ext) S"
    and "registered S cid = Some c" and "\<forall>i. \<not> held S i cid"
    and "\<forall>k < length as. next_id S + of_nat k \<noteq> cid"
  shows "registered S' cid = Some c \<and> (\<forall>i. \<not> held S' i cid)"
  using assms
proof (induction as arbitrary: S)
  case (Cons a as)
  then obtain T where T: "exec ext dbg a S = Some T" "run_steps (exec ext dbg) as T = Some S'"
    by (auto split: option.splits)
  have "next_id S \<noteq> cid" using Cons.prems(5) by (auto dest: spec [of _ 0])
  note st = orphan_step [OF T(1) Cons.prems(2-4) this]
  have "next_id S + of_nat k \<noteq> cid" "next_id S + 1 + of_nat k \<noteq> cid" if "k < length as" for k
    using that spec [OF Cons.prems(5), of k] spec [OF Cons.prems(5), of "Suc k"]
    by (simp_all add: add.assoc)
  then have "\<forall>k < length as. next_id T + of_nat k \<noteq> cid" using st by metis
  with Cons.IH [OF T(2) exec_inv [OF Cons.prems(2) T(1)]] st show ?case by blast
qed simp

text \<open>
  C30: a registered client that no connection remembers stays registered and keeps its live
  thread in every continuation of the run, until the 64-bit counter has wrapped around to
  its id: nothing removes the clients of connections that were closed by the peer, failed on
  a malformed \<open>STREAM\<close>, or subscribed again.
\<close>

theorem forgotten_client_stays:
  assumes "reachable (started ext dbg) (exec ext dbg) S" and "run_steps (exec ext dbg) as S = Some S'"
    and "clients (sys_server S) cid = Some c" and "\<forall>i. \<not> held S i cid"
    and "\<forall>k < length as. clients_count (sys_server S) + of_nat k \<noteq> cid"
  shows "clients (sys_server S') cid = Some c \<and> (\<exists>t. serves (sys_server S') c t)"
proof -
  have inv: "sys_inv (x_ser ext) S" using assms(1) by (rule program.reachable_inv)
  have "registered S' cid = Some c"
    using orphan_run [OF assms(2) inv] assms(3-5) by (simp add: registered_def next_id_def)
  moreover have "server_inv (sys_server S')"
    using program.run_inv [OF assms(2) inv] by (simp add: sys_inv_def serving_def)
  ultimately show ?thesis
    by (auto simp: registered_def server_inv_def all_served_def)
qed

text \<open>In the example the peer closes the connection and its client stays.\<close>

lemma example_orphan:
  "\<exists>S. reachable (started example_ext example_dbg) (exec example_ext example_dbg) S \<and>
     clients (sys_server S) 0 = Some (started_client [''AAPL''] (udp_callback example_addr) 0) \<and>
     (\<forall>i. \<not> held S i 0) \<and> clients_count (sys_server S) = 1 \<and> sys_exit S = None \<and>
     (\<exists>co. sys_conns S 0 = Some co \<and> co_pc co = Closed (Inr ()))"
proof -
  let ?S = "example_subscription [''AAPL'']"
  let ?co = "example_conn\<lparr>co_buf := [], co_pc := Closed (Inr ())\<rparr>"
  let ?S' = "?S\<lparr>sys_conns := (sys_conns ?S)(0 \<mapsto> ?co), sys_server := sys_server ?S\<rparr>"
  have "read_line (co_buf example_conn) [Eof] = Some (ReadOk 0 [], [], [])"
    by (simp add: read_line_def read_until.simps line_outcome_def utf8_valid_def example_conn_fields)
  from conn_round_eq [OF example_conn_fields(2) this]
  have "conn_round (good_io 0) [Eof] example_conn (sys_server ?S) = Some (?co, sys_server ?S)"
    by (simp add: handle_read_def)
  then have "exec example_ext example_dbg (Round 0 (good_io 0) [Eof]) ?S = Some ?S'"
    by (simp add: exec_def exec_action_def with_conn_def example_subscription_def example_start_def
        instant_ok_def good_io_def example_conn_fields round_blocked_def subscribed_server0_fields)
  then have "reachable (started example_ext example_dbg) (exec example_ext example_dbg) ?S'"
    by (rule reachable.successor [OF example_subscription_reachable [OF tickers_ok_examples(1)]])
  moreover have "\<forall>i. \<not> held ?S' i 0"
    by (simp add: held_def holds_def open_conn_def example_subscription_def)
  moreover have "clients (sys_server ?S') 0 = Some (started_client [''AAPL''] (udp_callback example_addr) 0)"
    "clients_count (sys_server ?S') = 1" "sys_exit ?S' = None"
    "\<exists>co. sys_conns ?S' 0 = Some co \<and> co_pc co = Closed (Inr ())"
    by (simp_all add: example_subscription_def subscribed_server0_fields example_start_def)
  ultimately show ?thesis by blast
qed

theorem forgotten_client_stays_witness:
  "\<exists>S S'. run_steps (exec example_ext example_dbg) [Tick 1000] S = Some S' \<and>
     clients (sys_server S') 0 \<noteq> None \<and> (\<forall>i. \<not> held S i 0)"
proof -
  obtain S where S: "reachable (started example_ext example_dbg) (exec example_ext example_dbg) S"
    "clients (sys_server S) 0 = Some (started_client [''AAPL''] (udp_callback example_addr) 0)"
    "\<forall>i. \<not> held S i 0" "clients_count (sys_server S) = 1" and e: "sys_exit S = None"
    using example_orphan by blast
  have "run_steps (exec example_ext example_dbg) [Tick 1000] S = Some (S\<lparr>sys_clock := sys_clock S + 1000\<rparr>)"
    using e by (simp add: exec_def exec_action_def Let_def)
  from forgotten_client_stays [OF S(1) this S(2,3)] this S(3,4) show ?thesis by fastforce
qed

end
