(* ===== verification/Connection_Lifetime.thy ===== *)
theory Connection_Lifetime
  imports Client_Ids
begin

text \<open>
  How long a connection lives, over whole runs of the server program: the results a handler
  can return, that a peer which sends lines in time keeps its subscription, and that a silent
  one is given up.
\<close>

section \<open>What a handler returns\<close>

text \<open>
  No lock is ever poisoned, so the errors of the quote server never reach a handler: it ends
  well, or on a malformed \<open>STREAM\<close>, or on a socket error. A call that waits has succeeded.
\<close>

definition handler_error :: "tcp_server_error \<Rightarrow> bool" where
  "handler_error e \<longleftrightarrow> (\<exists>m. e = ClientIoError m) \<or>
     e = InvalidCommand ''STREAM host:port TICKER...'' \<or> e = InvalidCommand ''Bad UDP address''"

definition handler_result :: "tcp_server_error + unit \<Rightarrow> bool" where
  "handler_result r \<longleftrightarrow> (case r of Inl e \<Rightarrow> handler_error e | Inr _ \<Rightarrow> True)"

definition after_ok :: "after \<Rightarrow> bool" where
  "after_ok a \<longleftrightarrow> (case a of
     AfterStream r \<Rightarrow> is_ok r | AfterStop r \<Rightarrow> is_ok r | AfterTimeout r \<Rightarrow> is_ok r | AfterFailure e r \<Rightarrow> is_ok r)"

definition results_ok :: "connection \<Rightarrow> bool" where
  "results_ok co \<longleftrightarrow> (case co_pc co of
     Closed r \<Rightarrow> handler_result r | Joining t a \<Rightarrow> after_ok a | _ \<Rightarrow> True)"

lemma results_ok_simps [simp]:
  "results_ok (co\<lparr>co_pc := Closed r\<rparr>) = handler_result r"
  "results_ok (co\<lparr>co_pc := Joining t a\<rparr>) = after_ok a"
  "results_ok (co\<lparr>co_pc := Napping u\<rparr>)"
  "results_ok (co\<lparr>co_pc := Reading\<rparr>)"
  by (simp_all add: results_ok_def)

lemma handler_result_simps [simp]:
  "handler_result (Inr ())"
  "handler_result (Inl (ClientIoError m))"
  "handler_result (Inl (InvalidCommand ''STREAM host:port TICKER...''))"
  "handler_result (Inl (InvalidCommand ''Bad UDP address''))"
  by (simp_all add: handler_result_def handler_error_def)

lemma after_ok_simps [simp]:
  "after_ok (AfterStream r) = is_ok r" "after_ok (AfterStop r') = is_ok r'"
  "after_ok (AfterTimeout r') = is_ok r'" "after_ok (AfterFailure e r') = is_ok r'"
  by (simp_all add: after_ok_def)

lemma reply_results [simp]: "results_ok (reply io bs co)"
  by (simp add: reply_def next_round_def write_all_def split: sum.split)

lemma run_after_results: "after_ok a \<Longrightarrow> results_ok (run_after io a co)"
  by (cases a) (auto simp: run_after_def stream_added_def stop_removed_def timeout_removed_def
      failure_removed_def map_err_def is_ok_def split: sum.splits)

lemma removal_results:
  assumes "serving s"
  obtains "remove_client cid s = (Done (Inr ()), s)" | t s' where "remove_client cid s = (Join t (Inr ()), s')"
  by (cases rule: removed_call [OF assms, of cid]) (use that in blast)+

lemma handle_read_results:
  assumes "serving s" and "handle_read io outcome co s = (co', s')"
  shows "results_ok co'"
proof -
  have stop: "results_ok (fst (handle_stop io co s))" for co
    by (cases "co_client_id co"; cases rule: removal_results [OF assms(1), of "the (co_client_id co)"])
      (auto simp: handle_stop_def Let_def stop_removed_def)
  have failure: "results_ok (fst (handle_failure e co s))" for e co
    by (cases "co_client_id co"; cases rule: removal_results [OF assms(1), of "the (co_client_id co)"])
      (auto simp: handle_failure_def Let_def failure_removed_def)
  have late: "results_ok (fst (handle_timeout io co s))" for co
    by (cases "co_client_id co"; cases rule: removal_results [OF assms(1), of "the (co_client_id co)"])
      (auto simp: handle_timeout_def Let_def timeout_removed_def map_err_def)
  have stream: "results_ok (fst (handle_stream io msg co s))" for msg co
    by (auto simp: handle_stream_def Let_def stream_added_def split: option.split sum.split prod.split call.split
        dest!: add_client_result [OF assms(1)])
  show ?thesis
    using assms(2) stop stream failure late
    by (cases outcome) (auto simp: handle_read_def handle_line_def handle_ping_def handle_invalid_def Let_def
        results_ok_def [of "_\<lparr>co_last_ping := _, co_pc := Reading\<rparr>"] split: if_splits
        dest!: arg_cong [of _ _ fst])
qed


lemma exec_results:
  assumes inv: "sys_inv (x_ser ext) S" and st: "exec ext dbg a S = Some S'"
    and ok: "\<forall>i co. sys_conns S i = Some co \<longrightarrow> results_ok co"
  shows "\<forall>i co. sys_conns S' i = Some co \<longrightarrow> results_ok co"
  using st
proof (cases rule: exec_cases)
  case (accepted r co)
  then have "results_ok co"
    by (auto simp: accept_round_def open_connection_def results_ok_def split: sum.splits)
  with ok show ?thesis by (simp add: accepted(2))
next
  case (round k io evs co co' s')
  have sv: "serving (sys_server S)" using inv by (simp add: sys_inv_def)
  obtain outcome buf where "handle_read io outcome (co\<lparr>co_buf := buf\<rparr>) (sys_server S) = (co', s')"
    using conn_round_cases [OF round(5)] by blast
  from handle_read_results [OF sv this] ok show ?thesis by (simp add: round(6))
next
  case (wake k co co')
  then have "results_ok co'" using conn_wake_joining [OF wake(2)] by (simp add: results_ok_def)
  with ok show ?thesis by (simp add: wake(3))
next
  case (resume k io co co' s')
  obtain t a where pc: "co_pc co = Joining t a" and co': "co' = run_after io a co"
    using conn_resume_effect [OF resume(2)] by blast
  have "results_ok co" using ok resume(1) by blast
  then have "after_ok a" using pc by (simp add: results_ok_def)
  from run_after_results [OF this] ok show ?thesis by (simp add: resume(3) co')
qed (use ok in simp_all)

text \<open>
  C28: what a handler returns. In every reachable state of the server program, a handler that
  has returned did so with \<open>Ok\<close>, with the error of a malformed \<open>STREAM\<close> command, or with a
  socket error; the errors of the quote server, such as a poisoned lock, never end a connection.
\<close>

theorem handler_results:
  assumes "reachable (started ext dbg) (exec ext dbg) S" and "sys_conns S i = Some co" and "co_pc co = Closed r"
  shows "r = Inr () \<or> (\<exists>m. r = Inl (ClientIoError m)) \<or>
     r = Inl (InvalidCommand ''STREAM host:port TICKER...'') \<or> r = Inl (InvalidCommand ''Bad UDP address'')"
proof -
  have "\<forall>i co. sys_conns S i = Some co \<longrightarrow> results_ok co"
    using assms(1)
  proof (induction rule: reachable.induct)
    case (initial S)
    then obtain rnd clk config bind_res clock where m: "server_main ext dbg rnd clk config bind_res clock = Inr S"
      unfolding started_def by blast
    show ?case by (cases rule: server_main_cases [OF m]) simp
  next
    case (successor S a S')
    then show ?case using exec_results program.reachable_inv by blast
  qed
  then have "results_ok co" using assms(2) by blast
  then have "handler_result r" using assms(3) by (simp add: results_ok_def)
  then show ?thesis by (cases r) (auto simp: handler_result_def handler_error_def)
qed

theorem handler_results_witness:
  "\<exists>S co r. reachable (started example_ext example_dbg) (exec example_ext example_dbg) S \<and>
     sys_conns S 0 = Some co \<and> co_pc co = Closed r \<and> r \<noteq> Inl (BindError [])"
proof -
  obtain S co where S: "reachable (started example_ext example_dbg) (exec example_ext example_dbg) S"
    "sys_conns S 0 = Some co" "co_pc co = Closed (Inr ())" using example_orphan by blast
  from handler_results [OF this] S show ?thesis by auto
qed


section \<open>Lines in time\<close>

text \<open>
  An action attends to connection \<open>i\<close> if it is a round of it that reads a line other than
  \<open>STREAM\<close> and \<open>STOP\<close> and can answer it, or whose read times out less than six seconds after
  the last line; actions of others always do.
\<close>

definition attended :: "nat \<Rightarrow> 'd action \<Rightarrow> system \<Rightarrow> bool" where
  "attended i a S \<longleftrightarrow> (case a of
     Round j io evs \<Rightarrow> j = i \<longrightarrow> (case sys_conns S i of None \<Rightarrow> False | Some co \<Rightarrow>
       (case read_line (co_buf co) evs of
          None \<Rightarrow> False
        | Some (ReadOk n line, _, _) \<Rightarrow> n \<noteq> 0 \<and> io_write io = Inr () \<and>
            \<not> starts_with (trim line) ''STREAM '' \<and> \<not> starts_with (trim line) ''STOP''
        | Some (ReadErr e, _, _) \<Rightarrow> timeout_error e \<and> io_now io < co_last_ping co + 6000))
   | _ \<Rightarrow> True)"

fun attended_run ::
    "'d externals \<Rightarrow> (tcp_server_error \<Rightarrow> string) \<Rightarrow> nat \<Rightarrow> 'd action list \<Rightarrow> system \<Rightarrow> bool" where
  "attended_run ext dbg i [] S = True"
| "attended_run ext dbg i (a # as) S = (attended i a S \<and>
     (case exec ext dbg a S of None \<Rightarrow> False | Some S' \<Rightarrow> attended_run ext dbg i as S'))"

text \<open>The connection waits for a line and remembers its client.\<close>

definition polling :: "system \<Rightarrow> nat \<Rightarrow> u64 \<Rightarrow> bool" where
  "polling S i cid \<longleftrightarrow> (\<exists>co. sys_conns S i = Some co \<and> co_client_id co = Some cid \<and>
     (co_pc co = Reading \<or> (\<exists>u. co_pc co = Napping u)))"

lemma polling_held: "polling S i cid \<Longrightarrow> held S i cid"
  by (auto simp: polling_def held_def holds_def open_conn_def)

lemma attended_line:
  assumes "n \<noteq> 0" and "io_write io = Inr ()"
    and "\<not> starts_with (trim line) ''STREAM ''" and "\<not> starts_with (trim line) ''STOP''"
    and "handle_read io (ReadOk n line) co s = (co', s')"
  shows "co_pc co' = Reading \<and> co_client_id co' = co_client_id co"
  using assms by (auto simp: handle_read_def handle_line_def handle_ping_def handle_invalid_def reply_ok Let_def
      split: if_splits)

lemma attended_polling:
  assumes inv: "sys_inv (x_ser ext) S" and "polling S i cid" and att: "attended i a S"
    and st: "exec ext dbg a S = Some S'"
  shows "polling S' i cid"
proof -
  obtain co where co: "sys_conns S i = Some co" "co_client_id co = Some cid"
    and pc: "co_pc co = Reading \<or> (\<exists>u. co_pc co = Napping u)"
    using assms(2) unfolding polling_def by blast
  have old: "i \<noteq> sys_next S" using inv co(1) by (auto simp: sys_inv_def)
  from st show ?thesis
  proof (cases rule: exec_cases)
    case (round k io evs co1 co' s')
    show ?thesis
    proof (cases "k = i")
      case True
      then have co1: "co1 = co" using round(2) co(1) by simp
      obtain outcome buf where r: "read_line (co_buf co) evs = Some (outcome, buf, [])"
        and h: "handle_read io outcome (co\<lparr>co_buf := buf\<rparr>) (sys_server S) = (co', s')"
        using conn_round_cases [OF round(5)] unfolding co1 by blast
      have "co_client_id co' = Some cid \<and> (co_pc co' = Reading \<or> (\<exists>u. co_pc co' = Napping u))"
      proof (cases outcome)
        case (ReadOk n line)
        with att round(1) True co(1) r attended_line [of n io line] h co(2) show ?thesis
          by (auto simp: attended_def)
      next
        case (ReadErr e)
        with att round(1) True co(1) r have "timeout_error e" "io_now io < co_last_ping (co\<lparr>co_buf := buf\<rparr>) + 6000"
          by (simp_all add: attended_def)
        from timeout_in_time [OF this] h ReadErr co(2) show ?thesis by auto
      qed
      then show ?thesis by (simp add: polling_def round(6) True)
    qed (use co pc in \<open>simp add: polling_def round(6)\<close>)
  next
    case (wake k co1 co')
    with co pc show ?thesis
      using conn_wake_joining [OF wake(2)] by (cases "k = i") (auto simp: polling_def)
  next
    case (resume k io co1 co' s')
    obtain t a where "co_pc co1 = Joining t a" using conn_resume_effect [OF resume(2)] by blast
    with resume co pc show ?thesis by (cases "k = i") (auto simp: polling_def)
  qed (use co pc old in \<open>simp_all add: polling_def\<close>)
qed


text \<open>While its connection polls, a client is removed by nobody else.\<close>

lemma attended_registered:
  assumes ok: "ids_ok n S" and n: "n < 2 ^ 64" and inv: "sys_inv (x_ser ext) S"
    and pol: "polling S i cid" and att: "attended i a S" and st: "exec ext dbg a S = Some S'"
  shows "registered S' cid = registered S cid"
proof -
  have h: "held S i cid" using pol by (rule polling_held)
  have h': "held S' i cid" using attended_polling [OF inv pol att st] by (rule polling_held)
  consider (keep) "keeps S S'" | (add) j where "adds j S S'" | (remove) j d where "removes j d S S'"
    using exec_registry [OF inv st] by blast
  then show ?thesis
  proof cases
    case keep
    then show ?thesis by (simp add: keeps_def)
  next
    case (add j)
    have "unat (next_id S) = n" using ok n by (simp add: ids_ok_def unat_of_nat)
    moreover have "unat cid < n" using ok h unfolding ids_ok_def by blast
    ultimately have "cid \<noteq> next_id S" by auto
    with add show ?thesis by (auto simp: adds_def)
  next
    case (remove j d)
    then have "j \<noteq> i" and "held S j d" using h' unfolding removes_def by blast+
    then have "d \<noteq> cid" using ok h unfolding ids_ok_def by blast
    with remove show ?thesis by (simp add: removes_def)
  qed
qed

lemma attended_run_survives:
  assumes "run_steps (exec ext dbg) as S = Some S'" and "attended_run ext dbg i as S"
    and "sys_inv (x_ser ext) S" and "polling S i cid" and "ids_ok n S" and "n + length as \<le> 2 ^ 64"
  shows "polling S' i cid \<and> registered S' cid = registered S cid"
  using assms
proof (induction as arbitrary: S n)
  case (Cons a as)
  then obtain T where T: "exec ext dbg a S = Some T" "run_steps (exec ext dbg) as T = Some S'"
    and att: "attended i a S" "attended_run ext dbg i as T"
    by (auto split: option.splits)
  have n: "n < 2 ^ 64" using Cons.prems(6) by simp
  note inv = exec_inv [OF Cons.prems(3) T(1)]
  note pol = attended_polling [OF Cons.prems(3,4) att(1) T(1)]
  obtain m where m: "ids_ok m T" "m \<le> Suc n"
    using ids_ok_step [OF Cons.prems(5) n Cons.prems(3) T(1)] by auto
  have "m + length as \<le> 2 ^ 64" using m(2) Cons.prems(6) by simp
  from Cons.IH [OF T(2) att(2) inv pol m(1) this]
    attended_registered [OF Cons.prems(5) n Cons.prems(3,4) att(1) T(1)]
  show ?case by simp
qed simp

text \<open>
  C9: a subscription lasts as long as its connection is attended to. In a run of at most
  \<open>2 ^ 64\<close> steps, from any point at which a handler waits for a line and remembers a client: if
  from then on the lines that arrive on this connection, pings for example, are neither
  \<open>STREAM\<close> nor \<open>STOP\<close>, the answers can be written, and no read times out six seconds or more
  after the last line, then, whatever all other threads and connections do, the handler still
  waits for lines and remembers its client, which is still registered with the same
  subscription and served by a live thread.
\<close>

theorem subscription_survives:
  assumes "started ext dbg S0" and "run_steps (exec ext dbg) bs S0 = Some S"
    and "run_steps (exec ext dbg) as S = Some S'" and "length bs + length as \<le> 2 ^ 64"
    and "polling S i cid" and "attended_run ext dbg i as S"
  shows "polling S' i cid \<and> clients (sys_server S') cid = clients (sys_server S) cid \<and>
     (\<exists>c t. clients (sys_server S') cid = Some c \<and> serves (sys_server S') c t)"
proof -
  have inv0: "sys_inv (x_ser ext) S0" using assms(1) server_main_inv unfolding started_def by blast
  note inv = program.run_inv [OF assms(2) inv0]
  have "0 + length bs \<le> 2 ^ 64" using assms(4) by simp
  from ids_ok_run [OF assms(2) inv0 started_ids_ok [OF assms(1)] this]
  obtain n where n: "n \<le> length bs" "ids_ok n S" by auto
  have "n + length as \<le> 2 ^ 64" using n(1) assms(4) by simp
  note sv = attended_run_survives [OF assms(3,6) inv assms(5) n(2) this]
  have "registered S cid \<noteq> None" using n(2) polling_held [OF assms(5)] unfolding ids_ok_def by blast
  then obtain c where c: "clients (sys_server S') cid = Some c" using sv by (auto simp: registered_def)
  have "server_inv (sys_server S')"
    using program.run_inv [OF assms(3) inv] by (simp add: sys_inv_def serving_def)
  then obtain t where "serves (sys_server S') c t"
    using c unfolding server_inv_def all_served_def by blast
  with sv c show ?thesis unfolding registered_def by metis
qed


text \<open>Five seconds pass and a ping arrives.\<close>

lemma example_pinged:
  defines "as \<equiv> [Tick 5000, Round 0 (good_io 5000) [Data (''PING'' @ [newline])]]"
  shows "\<exists>S. run_steps (exec example_ext example_dbg) as (example_subscription [''AAPL'']) = Some S \<and>
     attended_run example_ext example_dbg 0 as (example_subscription [''AAPL''])"
proof -
  let ?S = "example_subscription [''AAPL'']" and ?l = "''PING'' @ [newline]"
  let ?S1 = "?S\<lparr>sys_clock := 5000\<rparr>"
  have sf: "sys_exit ?S = None" "sys_conns ?S 0 = Some example_conn" "sys_clock ?S = 0"
    "\<not> clients_locked (sys_server ?S)"
    by (simp_all add: example_subscription_def example_start_def subscribed_server0_fields)
  have t: "exec example_ext example_dbg (Tick 5000) ?S = Some ?S1"
    using sf by (simp add: exec_def exec_action_def Let_def)
  have v: "utf8_valid ?l" by (rule utf8_valid_ascii) (simp add: is_ascii_def byte_of_def newline_def)
  obtain co' s' where h: "handle_read (good_io 5000) (ReadOk (Suc (length ''PING'')) ?l) example_conn (sys_server ?S1) = (co', s')"
    by fastforce
  have r: "exec example_ext example_dbg (Round 0 (good_io 5000) [Data ?l]) ?S1 =
      Some (?S1\<lparr>sys_conns := (sys_conns ?S1)(0 \<mapsto> co'), sys_server := s'\<rparr>)"
    using sf example_conn_fields v h by (intro exec_read) (simp_all add: newline_def instant_ok_def good_io_def)
  have "read_line [] [Data ?l] = Some (ReadOk 5 ?l, [], [])"
    using read_line_whole [of "''PING''"] v by (simp add: newline_def line_outcome_def)
  then have "attended 0 (Round 0 (good_io 5000) [Data ?l]) ?S1"
    using sf example_conn_fields trim_ping by (simp add: attended_def good_io_def starts_with_def)
  with t r show ?thesis by (simp add: as_def attended_def)
qed

theorem subscription_survives_witness:
  "\<exists>S. run_steps (exec example_ext example_dbg) [Tick 5000, Round 0 (good_io 5000) [Data (''PING'' @ [newline])]]
       (example_subscription [''AAPL'']) = Some S \<and>
     clients (sys_server S) 0 = Some (started_client [''AAPL''] (udp_callback example_addr) 0)"
proof -
  let ?S = "example_subscription [''AAPL'']"
  obtain S where S: "run_steps (exec example_ext example_dbg) [Tick 5000, Round 0 (good_io 5000) [Data (''PING'' @ [newline])]]
       ?S = Some S"
    "attended_run example_ext example_dbg 0 [Tick 5000, Round 0 (good_io 5000) [Data (''PING'' @ [newline])]] ?S"
    using example_pinged by blast
  have st: "started example_ext example_dbg example_start"
    unfolding started_def by (intro exI, rule example_started)
  have "polling ?S 0 0"
    using example_conn_fields by (simp add: polling_def example_subscription_def)
  from subscription_survives [OF st example_run_subscription [OF tickers_ok_examples(1)] S(1) _ this S(2)] S(1)
  show ?thesis by (simp add: example_subscription_def subscribed_server0_fields)
qed


section \<open>Silence\<close>

lemma read_line_fails:
  assumes "newline \<notin> set buf" and "timeout_error e"
  shows "read_line buf [ReadFail e] = Some (ReadErr e, [], [])"
  using assms timeout_not_interrupted [OF assms(2)] by (simp add: read_line_def line_outcome_def read_until.simps)

text \<open>
  C10: a silent connection is given up. In every reachable state in which a handler waits for a
  line with no operation holding the clients mutex, if nothing arrives until six seconds after
  the last line, the next read that times out ends the handler, at once or after the steps of
  the one client thread it then waits for: it returns \<open>Ok\<close>, its client is no longer registered,
  all others are, and the mutex is free again.
\<close>

theorem silent_connection_ends:
  assumes "reachable (started ext dbg) (exec ext dbg) S" and "sys_exit S = None"
    and "sys_conns S i = Some co" and "co_pc co = Reading" and "newline \<notin> set (co_buf co)"
    and "\<not> clients_locked (sys_server S)" and "co_last_ping co \<le> sys_clock S" and "timeout_error e"
  shows "\<exists>io as S' co'. run_steps (exec ext dbg)
       (Tick (co_last_ping co + 6000 - sys_clock S) # Round i io [ReadFail e] # as) S = Some S' \<and>
     (as = [] \<or> (\<exists>t n. as = replicate n (ClientThread t) @ [Resume i io])) \<and>
     sys_conns S' i = Some co' \<and> co_pc co' = Closed (Inr ()) \<and> co_client_id co' = None \<and>
     clients (sys_server S') = (case co_client_id co of
       None \<Rightarrow> clients (sys_server S) | Some cid \<Rightarrow> (clients (sys_server S))(cid := None)) \<and>
     \<not> clients_locked (sys_server S') \<and> sys_clock S' = max (sys_clock S) (co_last_ping co + 6000)"
proof -
  let ?d = "co_last_ping co + 6000 - sys_clock S"
  let ?S1 = "S\<lparr>sys_clock := sys_clock S + ?d\<rparr>" and ?io = "good_io (sys_clock S + ?d)"
  have inv: "sys_inv (x_ser ext) S" using assms(1) by (rule program.reachable_inv)
  have t: "exec ext dbg (Tick ?d) S = Some ?S1" using assms(2) by (simp add: exec_def exec_action_def Let_def)
  have sv: "serving (sys_server S)" using inv by (simp add: sys_inv_def)
  obtain co1 s1 where h: "handle_read ?io (ReadErr e) (co\<lparr>co_buf := []\<rparr>) (sys_server S) = (co1, s1)" by fastforce
  let ?S2 = "?S1\<lparr>sys_conns := (sys_conns ?S1)(i \<mapsto> co1), sys_server := s1\<rparr>"
  have "conn_round ?io [ReadFail e] co (sys_server S) = Some (co1, s1)"
    using conn_round_eq [OF assms(4) read_line_fails [OF assms(5,8)], of ?io "sys_server S"] h by simp
  then have r: "exec ext dbg (Round i ?io [ReadFail e]) ?S1 = Some ?S2"
    using assms(2,3,6,7)
    by (simp add: exec_def exec_action_def with_conn_def round_blocked_def instant_ok_def good_io_def Let_def)
  note late = timeout_too_late [OF sv assms(8) h]
  have c1: "co_client_id co1 = None" "clients s1 = (case co_client_id co of
       None \<Rightarrow> clients (sys_server S) | Some cid \<Rightarrow> (clients (sys_server S))(cid := None))"
    and pc: "co_pc co1 = Closed (Inr ()) \<or> (\<exists>t. co_pc co1 = Joining t (AfterTimeout (Inr ())))"
    using late by (simp_all add: good_io_def)
  have inv2: "sys_inv (x_ser ext) ?S2" by (rule exec_inv [OF exec_inv [OF inv t] r])
  have clock: "sys_clock S + ?d = max (sys_clock S) (co_last_ping co + 6000)" by simp
  from pc show ?thesis
  proof (elim disjE exE)
    assume cl: "co_pc co1 = Closed (Inr ())"
    have "\<not> clients_locked s1"
      using free_after_round [OF inv assms(6) inv2, of i co1] cl by (simp add: joining_def)
    with t r c1 cl clock show ?thesis
      by (intro exI [of _ ?io] exI [of _ "[]"] exI [of _ ?S2] exI [of _ co1]) simp
  next
    fix t'
    assume jn: "co_pc co1 = Joining t' (AfterTimeout (Inr ()))"
    have "sys_exit ?S2 = None" "sys_conns ?S2 i = Some co1" using assms(2) by simp_all
    from join_completes [OF inv2 this jn, of dbg ?io] obtain n S' where
      run: "run_steps (exec ext dbg) (replicate n (ClientThread t') @ [Resume i ?io]) ?S2 = Some S'"
      and S': "sys_conns S' = (sys_conns ?S2)(i \<mapsto> run_after ?io (AfterTimeout (Inr ())) co1)"
        "\<not> clients_locked (sys_server S')" "clients (sys_server S') = clients s1" "sys_clock S' = sys_clock ?S2"
      by auto
    with t r c1 clock show ?thesis
      by (intro exI [of _ ?io] exI [of _ "replicate n (ClientThread t') @ [Resume i ?io]"] exI [of _ S']
          exI [of _ "run_after ?io (AfterTimeout (Inr ())) co1"])
        (auto simp: run_after_def timeout_removed_def map_err_def)
  qed
qed

text \<open>In the example nothing is sent after the subscription.\<close>

theorem silent_connection_ends_witness:
  "\<exists>io as S'. run_steps (exec example_ext example_dbg)
       (Tick 6000 # Round 0 io [ReadFail \<lparr>io_kind = TimedOut, io_message = []\<rparr>] # as)
       (example_subscription [''AAPL'']) = Some S' \<and> clients (sys_server S') = Map.empty"
proof -
  let ?S = "example_subscription [''AAPL'']" and ?e = "\<lparr>io_kind = TimedOut, io_message = []\<rparr> :: io_error"
  have sf: "sys_exit ?S = None" "sys_conns ?S 0 = Some example_conn" "sys_clock ?S = 0"
    "\<not> clients_locked (sys_server ?S)"
    by (simp_all add: example_subscription_def example_start_def subscribed_server0_fields)
  have cf: "co_pc example_conn = Reading" "newline \<notin> set (co_buf example_conn)"
    "co_last_ping example_conn \<le> sys_clock ?S" "co_client_id example_conn = Some 0" "co_last_ping example_conn = 0"
    using example_conn_fields sf(3) by simp_all
  have e: "timeout_error ?e" by (simp add: timeout_error_def)
  have cl: "(clients (sys_server ?S))(0 := None) = Map.empty"
    by (simp add: example_subscription_def subscribed_server0_fields)
  from silent_connection_ends [OF example_subscription_reachable [OF tickers_ok_examples(1)] sf(1,2) cf(1,2) sf(4) cf(3) e]
  obtain io as S' where "run_steps (exec example_ext example_dbg) (Tick (0 + 6000 - 0) # Round 0 io [ReadFail ?e] # as) ?S = Some S'"
    and "clients (sys_server S') = (clients (sys_server ?S))(0 := None)"
    unfolding cf(4,5) sf(3) by auto
  with cl show ?thesis by auto
qed

end
