(* ===== verification/Server_Shutdown.thy ===== *)
theory Server_Shutdown
  imports Quote_Server
begin

text \<open>
  The end of the background thread of \<open>Quote_Server\<close>: after \<^verbatim>\<open>shutdown\<close> it takes a bounded
  number of steps, whatever the rest of the program does between them.
\<close>

section \<open>Starting\<close>

lemma start_once:
  "server_start (snd (server_start s)) = (fst (server_start s), snd (server_start s))"
  by (auto simp: server_start_def)

lemma shutdown_sets_flag: "shutdown_flag (snd (server_shutdown s))"
  by (simp add: server_shutdown_def Let_def split: option.split)


section \<open>The way to the end\<close>

text \<open>
  The way of background thread \<open>t\<close> through \<open>bg_step\<close>: each entry is what one of its steps
  finds, the instant and a state in which everything but its own program counter may have
  been changed by others.
\<close>

type_synonym ('d, 'w) bg_view = "'d pass \<times> u64 list \<times> nat \<times> 'w quote_server"

fun bg_path :: "'d externals \<Rightarrow> nat \<Rightarrow> ('d, 'w) bg_view list \<Rightarrow> bg_pc \<Rightarrow> bg_pc option" where
  "bg_path ext t [] pc = Some pc"
| "bg_path ext t ((p, ids, clock, s) # views) pc =
     (case bg_step ext p ids clock t (s\<lparr>bg_threads := (bg_threads s)(t \<mapsto> pc)\<rparr>) of
        None \<Rightarrow> None
      | Some s' \<Rightarrow> (case bg_threads s' t of
          None \<Rightarrow> None
        | Some pc' \<Rightarrow> bg_path ext t views pc'))"

definition view_clock :: "('d, 'w) bg_view \<Rightarrow> nat" where
  "view_clock v = (case v of (p, ids, clock, s) \<Rightarrow> clock)"

definition view_server :: "('d, 'w) bg_view \<Rightarrow> 'w quote_server" where
  "view_server v = (case v of (p, ids, clock, s) \<Rightarrow> s)"

lemma view_simps [simp]: "view_clock (p, ids, clock, s) = clock" "view_server (p, ids, clock, s) = s"
  by (simp_all add: view_clock_def view_server_def)

text \<open>The rounds of the update loop still possible after \<open>x\<close> milliseconds.\<close>

definition retries_left :: "nat \<Rightarrow> nat" where
  "retries_left x = (1009 - x) div 10"

lemma retries_left_mono: "x \<le> y \<Longrightarrow> retries_left y \<le> retries_left x"
  by (simp add: retries_left_def div_le_mono)

lemma retries_left_retry: "x < 1000 \<Longrightarrow> Suc (retries_left (x + 10)) = retries_left x"
  by (auto simp: retries_left_def)

lemma retries_left_le: "retries_left x \<le> 100"
  by (simp add: retries_left_def)

text \<open>The steps left, seen at instant \<open>at\<close>, once the flag is set.\<close>

definition steps_left :: "nat \<Rightarrow> bg_pc \<Rightarrow> nat" where
  "steps_left at pc = (case pc of
     BgStopped \<Rightarrow> 0
   | BgChecking \<Rightarrow> 1
   | BgNotifying \<Rightarrow> 2
   | BgUpdating start \<Rightarrow> 3 + 2 * retries_left (at - start)
   | BgRetrying start u \<Rightarrow> 4 + 2 * retries_left (u - start)
   | BgSleeping u \<Rightarrow> 204)"

lemma steps_left_mono: "at \<le> clock \<Longrightarrow> steps_left clock pc \<le> steps_left at pc"
  by (cases pc) (auto simp: steps_left_def intro!: retries_left_mono)

lemma steps_left_le: "steps_left at pc \<le> 204"
proof (cases pc)
  case (BgUpdating start)
  then show ?thesis using retries_left_le [of "at - start"] by (simp add: steps_left_def)
next
  case (BgRetrying start u)
  then show ?thesis using retries_left_le [of "u - start"] by (simp add: steps_left_def)
qed (simp_all add: steps_left_def)

text \<open>An update in progress began before the instant.\<close>

definition begun :: "bg_pc \<Rightarrow> nat \<Rightarrow> bool" where
  "begun pc at = (case pc of BgUpdating start \<Rightarrow> start \<le> at | BgRetrying start u \<Rightarrow> start \<le> at | _ \<Rightarrow> True)"

lemma begun_mono: "begun pc at \<Longrightarrow> at \<le> clock \<Longrightarrow> begun pc clock"
  by (cases pc) (simp_all add: begun_def)

lemma steps_left_decreases:
  assumes "shutdown_flag s" and "bg_threads s t = Some pc" and "begun pc clock"
    and "bg_step ext p ids clock t s = Some s'" and "bg_threads s' t = Some pc'"
  shows "steps_left clock pc' < steps_left clock pc"
proof (cases pc)
  case (BgUpdating start)
  show ?thesis
  proof (cases "fst (update_attempt ext p (clock - start) s)")
    case Retry
    then have "clock - start < 1000"
      by (auto simp: update_attempt_def WRITE_TIMEOUT_MS_def split: if_splits prod.splits)
    moreover from this have "retries_left (clock + 10 - start) \<le> retries_left (clock - start + 10)"
      using assms(3) BgUpdating by (intro retries_left_mono) (simp add: begun_def)
    moreover note retries_left_retry [of "clock - start"]
    ultimately show ?thesis
      using assms BgUpdating Retry
      by (auto simp: bg_step_def steps_left_def QUOTE_UPDATE_RETRY_PERIOD_MSEC_def split: prod.splits)
  next
    case (Returned r)
    then show ?thesis
      using assms BgUpdating by (auto simp: bg_step_def steps_left_def split: prod.splits)
  qed
next
  case (BgRetrying start u)
  then have "u \<le> clock" and "pc' = BgUpdating start"
    using assms by (auto simp: bg_step_def Let_def split: if_splits)
  moreover from this have "retries_left (clock - start) \<le> retries_left (u - start)"
    by (intro retries_left_mono) simp
  ultimately show ?thesis using BgRetrying by (simp add: steps_left_def)
next
  case (BgSleeping u)
  then show ?thesis
    using assms by (auto simp: bg_step_def steps_left_def Let_def retries_left_def split: if_splits)
qed (use assms in \<open>auto simp: bg_step_def steps_left_def Let_def split: if_splits\<close>)

lemma begun_step:
  assumes "bg_threads s t = Some pc" and "begun pc clock"
    and "bg_step ext p ids clock t s = Some s'" and "bg_threads s' t = Some pc'"
  shows "begun pc' clock"
  using assms
  by (cases pc) (auto simp: bg_step_def begun_def Let_def split: if_splits prod.splits attempt.splits)

lemma bg_path_bounded:
  assumes "list_all (\<lambda>v. shutdown_flag (view_server v)) views" and "sorted (map view_clock views)"
    and "\<forall>v \<in> set views. at \<le> view_clock v \<and> begun pc (view_clock v)" and "bg_path ext t views pc = Some pc'"
  shows "length views + steps_left (last (at # map view_clock views)) pc' \<le> steps_left at pc"
  using assms
proof (induction views arbitrary: at pc)
  case (Cons v views)
  obtain p ids clock s where v: "v = (p, ids, clock, s)" by (cases v)
  let ?s = "s\<lparr>bg_threads := (bg_threads s)(t \<mapsto> pc)\<rparr>"
  obtain s' pc1 where st: "bg_step ext p ids clock t ?s = Some s'" "bg_threads s' t = Some pc1"
    and rest: "bg_path ext t views pc1 = Some pc'"
    using Cons.prems(4) by (auto simp: v split: option.splits)
  have b: "begun pc clock" "at \<le> clock" using Cons.prems(3) v by auto
  have less: "steps_left clock pc1 < steps_left clock pc"
    using Cons.prems(1) b(1) by (intro steps_left_decreases [OF _ _ _ st]) (simp_all add: v)
  have mono: "steps_left clock pc \<le> steps_left at pc" using b(2) by (rule steps_left_mono)
  have "begun pc1 clock" using b(1) by (intro begun_step [OF _ _ st]) simp_all
  then have rec: "length views + steps_left (last (clock # map view_clock views)) pc' \<le> steps_left clock pc1"
    using Cons.prems(1,2) rest by (intro Cons.IH) (auto simp: v intro: begun_mono)
  have eq: "last (at # map view_clock (v # views)) = last (clock # map view_clock views)"
    "length (v # views) = Suc (length views)" by (simp_all add: v)
  show ?case unfolding eq using less mono rec by linarith
qed simp

lemma bg_step_enabled:
  assumes "bg_threads s t = Some pc" and "pc \<noteq> BgStopped" and "\<not> clients_locked s"
    and "case pc of BgSleeping u \<Rightarrow> u \<le> clock | BgRetrying _ u \<Rightarrow> u \<le> clock | _ \<Rightarrow> True"
  shows "bg_step ext p ids clock t s \<noteq> None"
  using assms by (cases pc) (auto simp: bg_step_def Let_def split: prod.splits attempt.splits)

lemma bg_step_pc: "bg_step ext p ids clock t s = Some s' \<Longrightarrow> \<exists>pc. bg_threads s' t = Some pc"
  by (auto simp: bg_step_def Let_def split: option.splits bg_pc.splits prod.splits attempt.splits if_splits)

lemma bg_path_append:
  "bg_path ext t (views @ ws) pc = (case bg_path ext t views pc of None \<Rightarrow> None | Some pc' \<Rightarrow> bg_path ext t ws pc')"
  by (induction ext t views pc rule: bg_path.induct) (auto split: option.splits)

definition sleeps_until :: "bg_pc \<Rightarrow> nat" where
  "sleeps_until pc = (case pc of BgSleeping u \<Rightarrow> u | BgRetrying _ u \<Rightarrow> u | _ \<Rightarrow> 0)"

lemma bg_path_enabled:
  assumes "pc \<noteq> BgStopped" and "\<not> clients_locked s" and "sleeps_until pc \<le> clock"
  shows "\<exists>pc'. bg_path ext t [(p, ids, clock, s)] pc = Some pc'"
proof -
  let ?s = "s\<lparr>bg_threads := (bg_threads s)(t \<mapsto> pc)\<rparr>"
  have "bg_step ext p ids clock t ?s \<noteq> None"
    using assms by (intro bg_step_enabled [where pc = pc]) (auto simp: sleeps_until_def split: bg_pc.splits)
  then obtain s' where "bg_step ext p ids clock t ?s = Some s'" by blast
  then show ?thesis using bg_step_pc by fastforce
qed



end
