(* ===== verification/Text_Safety.thy ===== *)
theory Text_Safety
  imports System_Properties
begin

text \<open>
  Well-formedness of what the server program holds and sends. A Rust \<^verbatim>\<open>str\<close> is always valid
  UTF-8; in this model text is a list of bytes, and the property is an invariant of the
  runs. What is written to a connection is a sequence of the protocol's replies.
\<close>

section \<open>Text\<close>

definition text_ok :: "server \<Rightarrow> bool" where
  "text_ok s \<longleftrightarrow> (\<forall>k \<in> dom (quotes s). utf8_valid k) \<and>
     (\<forall>cid c. clients s cid = Some c \<longrightarrow> list_all utf8_valid (cl_tickers c))"

lemma text_ok_same:
  "text_ok s \<Longrightarrow> dom (quotes s') = dom (quotes s) \<Longrightarrow> clients s' = clients s \<Longrightarrow> text_ok s'"
  by (simp add: text_ok_def)

lemma started_empty:
  assumes "started ext dbg S"
  shows "sys_conns S = Map.empty \<and> clients (sys_server S) = Map.empty"
proof -
  obtain rnd clk config bind_res clock where m: "server_main ext dbg rnd clk config bind_res clock = Inr S"
    using assms unfolding started_def by blast
  show ?thesis by (cases rule: server_main_cases [OF m]) (simp add: server_start_def initial_server_def)
qed

text \<open>A line that was read is valid text, and so are its words.\<close>

lemma read_line_valid: "read_line buf evs = Some (ReadOk n line, rest) \<Longrightarrow> utf8_valid line"
  by (auto simp: read_line_def line_outcome_def split: option.splits if_splits)

lemma handle_read_words:
  assumes "handle_read io outcome co s = (co', s')" and "\<And>n line. outcome = ReadOk n line \<Longrightarrow> utf8_valid line"
  shows "s' = s \<or> (\<exists>ts addr. list_all utf8_valid ts \<and> s' = snd (add_client ts (udp_callback addr) s)) \<or>
     (\<exists>cid. s' = snd (remove_client cid s))"
proof -
  have words: "list_all utf8_valid (drop 2 (split_whitespace (trim line)))" if "outcome = ReadOk n line" for n line
    using utf8_valid_words [OF utf8_valid_trim [OF assms(2) [OF that]]]
    by (auto simp: list_all_iff dest: in_set_dropD)
  show ?thesis
    using assms(1) words
    by (auto simp: conn_defs reply_def next_round_def write_all_def stop_removed_def timeout_removed_def
        failure_removed_def split: read_outcome.splits option.splits sum.splits prod.splits call.splits if_splits)
      (metis snd_conv)+
qed

lemma text_ok_round:
  assumes "serving s" and "text_ok s" and "conn_round io evs co s = Some (co', s')"
  shows "text_ok s'"
proof -
  obtain outcome buf where r: "read_line (co_buf co) evs = Some (outcome, buf, [])"
    and h: "handle_read io outcome (co\<lparr>co_buf := buf\<rparr>) s = (co', s')"
    using conn_round_cases [OF assms(3)] by blast
  have v: "utf8_valid line" if "outcome = ReadOk n line" for n line using r that read_line_valid by blast
  have "s' = s \<or> (\<exists>ts addr. list_all utf8_valid ts \<and> s' = snd (add_client ts (udp_callback addr) s)) \<or>
      (\<exists>cid. s' = snd (remove_client cid s))"
    by (rule handle_read_words [OF h]) (rule v)
  then
  consider "s' = s"
    | ts addr where "list_all utf8_valid ts" "s' = snd (add_client ts (udp_callback addr) s)"
    | cid where "s' = snd (remove_client cid s)" by blast
  then show ?thesis
  proof cases
    case (2 ts addr)
    obtain k s1 where k: "add_client ts (udp_callback addr) s = (k, s1)" by fastforce
    then have q: "same_rest s s'" using add_client_effect [OF assms(1) k] 2(2) by (simp add: clients_effect_def)
    show ?thesis
      using add_client_fields [OF assms(1), of ts "udp_callback addr"] 2 q assms(2)
      by (auto simp: text_ok_def same_rest_def started_client_def)
  next
    case (3 cid)
    obtain k s1 where k: "remove_client cid s = (k, s1)" by fastforce
    then have q: "same_rest s s'" using remove_client_effect [OF assms(1) k] 3 by (simp add: clients_effect_def)
    show ?thesis
      using remove_client_fields [OF assms(1), of cid] 3 q assms(2)
      by (auto simp: text_ok_def same_rest_def split: if_splits)
  qed (use assms(2) in simp)
qed

lemma exec_text:
  assumes inv: "sys_inv (x_ser ext) S" and ok: "text_ok (sys_server S)" and st: "exec ext dbg a S = Some S'"
  shows "text_ok (sys_server S')"
proof -
  let ?s = "sys_server S"
  have sv: "serving ?s" using inv by (simp add: sys_inv_def)
  have q: "dom (quotes (sys_server S')) = dom (quotes ?s)" using exec_le [OF inv st] by (simp add: sys_le_def)
  from st show ?thesis
  proof (cases rule: exec_cases)
    case (thread t s')
    with rt_step_effect [OF thread(1)] q show ?thesis by (intro text_ok_same [OF ok]) simp_all
  next
    case (background t p ids s')
    then have d: "distinct (pass_order p)" "distinct ids" and si: "server_inv ?s"
      using sv by (auto simp: orders_ok_def serving_def)
    from bg_step_effect [OF si d background(1)] q background(3) show ?thesis
      by (intro text_ok_same [OF ok]) simp_all
  next
    case (round k io evs co co' s')
    from text_ok_round [OF sv ok round(5)] show ?thesis by (simp add: round(6))
  next
    case (resume k io co co' s')
    obtain t where "call_resume t ?s = Some s'" using conn_resume_effect [OF resume(2)] by blast
    from call_resume_effect [OF this] q resume(3) show ?thesis by (intro text_ok_same [OF ok]) simp_all
  qed (use ok in simp_all)
qed




section \<open>Replies\<close>

definition replies :: "string set" where
  "replies = {''PONG'' @ [newline], ''STREAM OK'' @ [newline], ''STOP OK'' @ [newline],
     ''ERR Invalid command'' @ [newline]}"

text \<open>Whole replies, or whole replies and the part of one that a failed write left.\<close>

definition whole_replies :: "string \<Rightarrow> bool" where
  "whole_replies w \<longleftrightarrow> (\<exists>rs. set rs \<subseteq> replies \<and> w = concat rs)"

definition written_ok :: "connection \<Rightarrow> bool" where
  "written_ok co \<longleftrightarrow> whole_replies (co_written co) \<or>
     (\<exists>e w r k. co_pc co = Closed (Inl (ClientIoError e)) \<and> whole_replies w \<and> r \<in> replies \<and>
        co_written co = w @ take k r)"

lemma whole_replies_add: "whole_replies w \<Longrightarrow> r \<in> replies \<Longrightarrow> whole_replies (w @ r)"
  unfolding whole_replies_def by (metis (no_types, lifting) Un_insert_right concat.simps concat_append
      append_Nil2 insert_subset list.simps(15) set_append sup_bot_right)

lemma written_reply:
  assumes "whole_replies (co_written co)" and "bs @ [newline] \<in> replies"
  shows "written_ok (reply io bs co)"
proof (cases "io_write io")
  case (Inl e)
  then have "co_pc (reply io bs co) = Closed (Inl (ClientIoError (io_message e)))"
    and "co_written (reply io bs co) = co_written co @ take (io_partial io) (bs @ [newline])"
    by (simp_all add: reply_def write_all_def next_round_def)
  with assms show ?thesis unfolding written_ok_def by blast
next
  case (Inr u)
  then have "co_written (reply io bs co) = co_written co @ (bs @ [newline])"
    by (simp add: reply_def write_all_def next_round_def)
  with whole_replies_add [OF assms] show ?thesis unfolding written_ok_def by metis
qed

lemma written_same: "whole_replies (co_written co) \<Longrightarrow> co_written co' = co_written co \<Longrightarrow> written_ok co'"
  by (simp add: written_ok_def)

lemma written_open: "written_ok co \<Longrightarrow> \<forall>r. co_pc co \<noteq> Closed r \<Longrightarrow> whole_replies (co_written co)"
  by (auto simp: written_ok_def)

text \<open>A round, and what follows a join, writes nothing or one reply.\<close>

lemma written_stream_added: "whole_replies (co_written co) \<Longrightarrow> written_ok (stream_added io r co)"
  by (auto simp: stream_added_def replies_def intro: written_reply written_same split: sum.splits)

lemma written_removed:
  "whole_replies (co_written co) \<Longrightarrow> written_ok (stop_removed io r' co)"
  "whole_replies (co_written co) \<Longrightarrow> written_ok (timeout_removed r' co)"
  "whole_replies (co_written co) \<Longrightarrow> written_ok (failure_removed e r' co)"
  by (auto simp: stop_removed_def timeout_removed_def failure_removed_def replies_def
      intro: written_reply written_same split: sum.splits)

lemma written_run_after: "whole_replies (co_written co) \<Longrightarrow> written_ok (run_after io a co)"
  by (cases a) (simp_all add: run_after_def written_stream_added written_removed)

lemma written_handle_read:
  assumes "whole_replies (co_written co)" and "handle_read io outcome co s = (co', s')"
  shows "written_ok co'"
proof -
  have r: "written_ok (reply io bs (co\<lparr>co_last_ping := t\<rparr>))" if "bs @ [newline] \<in> replies" for bs t
    using assms(1) that by (intro written_reply) simp_all
  show ?thesis
    using assms r
    by (auto simp: conn_defs replies_def intro: written_same written_stream_added written_removed
        split: read_outcome.splits option.splits sum.splits prod.splits call.splits if_splits)
qed

lemma exec_written:
  assumes st: "exec ext dbg a S = Some S'" and ok: "\<forall>i co. sys_conns S i = Some co \<longrightarrow> written_ok co"
  shows "\<forall>i co. sys_conns S' i = Some co \<longrightarrow> written_ok co"
  using st
proof (cases rule: exec_cases)
  case (accepted r co)
  then have "co_written co = []" by (auto simp: accept_round_def open_connection_def split: sum.splits)
  then have "written_ok co" unfolding written_ok_def whole_replies_def by (intro disjI1 exI [of _ "[]"]) simp
  with ok show ?thesis by (simp add: accepted(2))
next
  case (round k io evs co co' s')
  obtain outcome buf where h: "handle_read io outcome (co\<lparr>co_buf := buf\<rparr>) (sys_server S) = (co', s')"
    using conn_round_cases [OF round(5)] by blast
  have "whole_replies (co_written co)"
    using ok round(2) conn_round_reading [OF round(5)] by (intro written_open) auto
  with written_handle_read [OF _ h] ok show ?thesis by (simp add: round(6))
next
  case (wake k co co')
  then have "written_ok co" and "co_written co' = co_written co" and "\<forall>r. co_pc co \<noteq> Closed r"
    using ok by (auto simp: conn_wake_def split: conn_pc.splits if_splits)
  with ok written_same [OF written_open] show ?thesis by (simp add: wake(3))
next
  case (resume k io co co' s')
  obtain t af where "co_pc co = Joining t af" and co': "co' = run_after io af co"
    using conn_resume_effect [OF resume(2)] by blast
  then have "written_ok co'" using ok resume(1) written_open [of co] by (simp add: written_run_after)
  with ok show ?thesis by (simp add: resume(3))
qed (use ok in simp_all)

text \<open>
  C12: what the server writes to a connection is, in every state of every run, a sequence of
  whole replies of the protocol, each a line of ASCII; only when a write failed, and the handler
  has returned with that error, may a part of one reply follow.
\<close>

theorem replies_well_formed:
  assumes "reachable (started ext dbg) (exec ext dbg) S" and "sys_conns S i = Some co"
  shows "\<exists>rs r k. set rs \<subseteq> replies \<and> r \<in> replies \<and> co_written co = concat rs @ take k r \<and>
     (0 < k \<longrightarrow> (\<exists>e. co_pc co = Closed (Inl (ClientIoError e))))"
proof -
  have "\<forall>i co. sys_conns S i = Some co \<longrightarrow> written_ok co"
    using assms(1)
  proof (induction rule: reachable.induct)
    case (initial S)
    then show ?case using started_empty [OF initial] by simp
  next
    case (successor S a S')
    then show ?case using exec_written by blast
  qed
  with assms(2) have "written_ok co" by blast
  moreover have "''PONG'' @ [newline] \<in> replies" by (simp add: replies_def)
  ultimately show ?thesis unfolding written_ok_def whole_replies_def
    by (metis append_Nil2 less_irrefl take0)
qed

theorem replies_well_formed_witness:
  "\<exists>rs. set rs \<subseteq> replies \<and> co_written example_conn = concat rs"
proof -
  have "sys_conns (example_subscription [''AAPL'']) 0 = Some example_conn"
    by (simp add: example_subscription_def)
  from replies_well_formed [OF example_subscription_reachable [OF tickers_ok_examples(1)] this]
  show ?thesis using example_conn_fields(2) by force
qed

end
