(* ===== verification/Session.thy ===== *)
theory Session
  imports Text_Safety Client_Server
begin

text \<open>
  Whole sessions. The protocol, seen from one connection, is a small abstract machine: the
  subscriptions of all clients, the next id and the id of the connection's own client. The
  server program, client program and the bytes between them implement it.
\<close>

section \<open>The protocol\<close>

datatype protocol_request =
    Ping
  | Subscribe u8 u8 u8 u8 u16 "string list"
  | Stop
  | Other string

fun request_line :: "protocol_request \<Rightarrow> string" where
  "request_line Ping = ''PING''"
| "request_line (Subscribe a b c d p ts) = stream_line (show_v4 a b c d p) ts"
| "request_line Stop = ''STOP''"
| "request_line (Other text) = text"

text \<open>\<open>Other\<close> is text that begins with no command, and does not end the client.\<close>

fun request_ok :: "protocol_request \<Rightarrow> bool" where
  "request_ok (Subscribe a b c d p ts) \<longleftrightarrow> ts \<noteq> [] \<and> list_all word ts"
| "request_ok (Other text) \<longleftrightarrow> plain_command text \<and> \<not> eq_ignore_ascii_case text ''EXIT'' \<and>
     \<not> starts_with text ''PING'' \<and> \<not> starts_with text ''STREAM '' \<and> \<not> starts_with text ''STOP''"
| "request_ok _ \<longleftrightarrow> True"

record protocol =
  pr_subs :: "u64 \<rightharpoonup> string list \<times> datagrams callback"
  pr_next :: u64
  pr_mine :: "u64 option"

fun serve_request :: "protocol_request \<Rightarrow> protocol \<Rightarrow> string \<times> protocol" where
  "serve_request Ping P = (''PONG'', P)"
| "serve_request (Subscribe a b c d p ts) P = (''STREAM OK'',
     P\<lparr>pr_subs := (pr_subs P)(pr_next P \<mapsto> (ts, udp_callback (SocketV4 a b c d p))),
       pr_next := pr_next P + 1, pr_mine := Some (pr_next P)\<rparr>)"
| "serve_request Stop P = (''STOP OK'',
     P\<lparr>pr_subs := (case pr_mine P of None \<Rightarrow> pr_subs P | Some cid \<Rightarrow> (pr_subs P)(cid := None)),
       pr_mine := None\<rparr>)"
| "serve_request (Other text) P = (''ERR Invalid command'', P)"

fun serve_requests :: "protocol_request list \<Rightarrow> protocol \<Rightarrow> string list \<times> protocol" where
  "serve_requests [] P = ([], P)"
| "serve_requests (r # rs) P =
     (let (w, P') = serve_request r P; (ws, P'') = serve_requests rs P' in (w # ws, P''))"

lemma request_plain:
  assumes "request_ok r"
  shows "plain_command (request_line r)" and "\<not> eq_ignore_ascii_case (request_line r) ''EXIT''"
proof -
  have p: "plain_command ''PING''" "plain_command ''STOP''"
    by (simp_all add: plain_command_def is_ascii_def byte_of_def is_space_iff newline_def)
  have e: "\<not> eq_ignore_ascii_case ''PING'' ''EXIT''" "\<not> eq_ignore_ascii_case ''STOP'' ''EXIT''"
    by code_simp+
  show "plain_command (request_line r)"
    using assms p stream_plain(1) [OF show_v4_word] by (cases r) simp_all
  show "\<not> eq_ignore_ascii_case (request_line r) ''EXIT''"
    using assms e stream_plain(2) [OF show_v4_word] by (cases r) simp_all
qed

lemma reply_line: "answer_line (fst (serve_request r P) @ [newline])"
  using answer_lines by (cases r) simp_all


section \<open>The handler\<close>

text \<open>The connection after the round, and after the wait if there is one.\<close>

definition settled :: "conn_io \<Rightarrow> connection \<Rightarrow> connection" where
  "settled io co = (case co_pc co of Joining t a \<Rightarrow> run_after io a co | _ \<Rightarrow> co)"

definition protocol_at :: "server \<Rightarrow> connection \<Rightarrow> protocol" where
  "protocol_at s co = \<lparr>pr_subs = subscriptions s, pr_next = clients_count s, pr_mine = co_client_id co\<rparr>"

lemma subscriptions_upd:
  "clients s' = (clients s)(cid \<mapsto> c) \<Longrightarrow>
   subscriptions s' = (subscriptions s)(cid \<mapsto> (cl_tickers c, cl_callback c))"
  "clients s' = (clients s)(cid := None) \<Longrightarrow> subscriptions s' = (subscriptions s)(cid := None)"
  by (simp_all add: subscriptions_def fun_eq_iff)

text \<open>What the round and the wait have to achieve for a request.\<close>

definition served :: "conn_io \<Rightarrow> connection \<Rightarrow> string \<Rightarrow> protocol \<Rightarrow> connection \<Rightarrow> server \<Rightarrow> bool" where
  "served io co w P co' s' \<longleftrightarrow>
     settled io co' = co\<lparr>co_last_ping := io_now io, co_client_id := pr_mine P,
       co_written := co_written co @ w @ [newline], co_pc := Reading\<rparr> \<and>
     protocol_at s' (settled io co') = P \<and> (co_pc co' = Reading \<or> (\<exists>t a. co_pc co' = Joining t a))"

lemma request_handled:
  assumes "request_ok r"
  shows "handle_read io (ReadOk (Suc (length (request_line r))) (request_line r @ [newline])) co s =
     (let co = co\<lparr>co_last_ping := io_now io\<rparr> in case r of
        Ping \<Rightarrow> (handle_ping io co, s)
      | Subscribe _ _ _ _ _ _ \<Rightarrow> handle_stream io (request_line r) co s
      | Stop \<Rightarrow> handle_stop io co s
      | Other _ \<Rightarrow> (handle_invalid io co, s))"
proof -
  note trimmed = plain_trim [OF request_plain(1) [OF assms]]
  have ne: "request_line r \<noteq> []" using request_plain(1) [OF assms] by (simp add: plain_command_def)
  have line: "handle_read io (ReadOk (Suc (length (request_line r))) (request_line r @ [newline])) co s =
      (let co = co\<lparr>co_last_ping := io_now io\<rparr> in
       if starts_with (request_line r) ''PING'' then (handle_ping io co, s)
       else if starts_with (request_line r) ''STREAM '' then handle_stream io (request_line r) co s
       else if starts_with (request_line r) ''STOP'' then handle_stop io co s
       else (handle_invalid io co, s))"
    using trimmed ne by (simp add: handle_read_def handle_line_def Let_def)
  show ?thesis
  proof (cases r)
    case (Subscribe a b c d p ts)
    then have ts: "list_all word ts" using assms by simp
    from stream_line_trim(2,3) [OF show_v4_word ts, of a b c d p] line Subscribe show ?thesis by simp
  qed (use line assms in \<open>simp_all add: starts_with_def\<close>)
qed

lemma replied_served:
  assumes "io_write io = Inr ()" and "P = protocol_at s (co\<lparr>co_client_id := cid\<rparr>)"
  shows "served io co w P (reply io w (co\<lparr>co_last_ping := io_now io, co_client_id := cid\<rparr>)) s"
  using assms by (simp add: served_def reply_ok settled_def protocol_at_def)

lemma stop_served:
  assumes "serving s" and "io_write io = Inr ()"
    and "serve_request Stop (protocol_at s co) = (w, P)"
    and "handle_stop io (co\<lparr>co_last_ping := io_now io\<rparr>) s = (co', s')"
  shows "served io co w P co' s'"
proof -
  have P: "w = ''STOP OK''" "P = (protocol_at s co)\<lparr>pr_subs := (case co_client_id co of
      None \<Rightarrow> subscriptions s | Some cid \<Rightarrow> (subscriptions s)(cid := None)), pr_mine := None\<rparr>"
    using assms(3) by (auto simp: protocol_at_def split: option.split)
  show ?thesis
  proof (cases "co_client_id co")
    case None
    with assms(2,4) P show ?thesis
      by (auto simp: served_def handle_stop_def reply_ok settled_def protocol_at_def)
  next
    case (Some cid)
    obtain k s1 where k: "remove_client cid s = (k, s1)" by fastforce
    have f: "clients s1 = (clients s)(cid := None)" "clients_count s1 = clients_count s"
      using remove_client_fields [OF assms(1), of cid] k by simp_all
    have "k = Done (Inr ()) \<or> (\<exists>t. k = Join t (Inr ()))"
      by (cases rule: removed_call [OF assms(1), of cid]) (use k in \<open>simp_all\<close>)
    then show ?thesis
      using assms(2,4) k Some P f subscriptions_upd(2) [OF f(1)]
      by (auto simp: served_def handle_stop_def settled_def run_after_def stop_removed_def reply_ok protocol_at_def Let_def)
  qed
qed

lemma subscribe_served:
  assumes "serving s" and "io_write io = Inr ()" and "io_bind io = Inr ()" and ts: "ts \<noteq> []" "list_all word ts"
    and "serve_request (Subscribe a b c d p ts) (protocol_at s co) = (w, P)"
    and "handle_stream io (stream_line (show_v4 a b c d p) ts) (co\<lparr>co_last_ping := io_now io\<rparr>) s = (co', s')"
  shows "served io co w P co' s'"
proof -
  let ?cb = "udp_callback (SocketV4 a b c d p)" and ?co = "co\<lparr>co_last_ping := io_now io\<rparr>"
  note parts = stream_line_words(2) [OF show_v4_word ts(2), of a b c d p]
  obtain k s1 where k: "add_client ts ?cb s = (k, s1)" by fastforce
  have f: "clients s1 = (clients s)(clients_count s \<mapsto> started_client ts ?cb (rt_next s))"
    "clients_count s1 = clients_count s + 1"
    using add_client_fields [OF assms(1), of ts ?cb] k by simp_all
  have sub: "subscriptions s1 = (subscriptions s)(clients_count s \<mapsto> (ts, ?cb))"
    using subscriptions_upd(1) [OF f(1)] by (simp add: started_client_def)
  have "\<not> length (''STREAM'' # show_v4 a b c d p # ts) < 3" using ts(1) by (cases ts) auto
  then have "handle_stream io (stream_line (show_v4 a b c d p) ts) ?co s = (case k of
      Done r \<Rightarrow> (stream_added io r ?co, s1) | Join t r \<Rightarrow> (?co\<lparr>co_pc := Joining t (AfterStream r)\<rparr>, s1))"
    using assms(3) parts k by (simp add: handle_stream_def parse_show_v4 split: call.split)
  moreover note add_client_result [OF assms(1) k]
  ultimately show ?thesis
    using assms(2,6,7) f(2) sub
    by (auto simp: served_def settled_def run_after_def stream_added_def reply_ok protocol_at_def)
qed

lemma serve_request_round:
  assumes "serving s" and "request_ok r" and "io_write io = Inr ()" and "io_bind io = Inr ()"
    and "serve_request r (protocol_at s co) = (w, P)"
    and "handle_read io (ReadOk (Suc (length (request_line r))) (request_line r @ [newline])) co s = (co', s')"
  shows "served io co w P co' s'"
proof (cases r)
  case Stop
  with assms(5,6) request_handled [OF assms(2), of io co s]
  show ?thesis by (intro stop_served [OF assms(1,3)]) simp_all
next
  case (Subscribe a b c d p ts)
  with assms(2,5,6) request_handled [OF assms(2), of io co s]
  show ?thesis by (intro subscribe_served [OF assms(1,3,4)]) simp_all
qed (use assms(5,6) request_handled [OF assms(2), of io co s] replied_served [OF assms(3) refl, of co w s "co_client_id co"]
    in \<open>auto simp: handle_ping_def handle_invalid_def\<close>)


section \<open>The server program\<close>

text \<open>A connection that can read its next command, while no operation holds the mutex.\<close>

definition ready :: "system \<Rightarrow> nat \<Rightarrow> connection \<Rightarrow> bool" where
  "ready S i co \<longleftrightarrow> sys_exit S = None \<and> sys_conns S i = Some co \<and> co_pc co = Reading \<and> co_buf co = [] \<and>
     co_last_ping co \<le> sys_clock S \<and> \<not> clients_locked (sys_server S)"

text \<open>The bytes that the steps of a run deliver to a connection.\<close>

definition delivered :: "nat \<Rightarrow> 'd action list \<Rightarrow> string" where
  "delivered i as = concat (map (\<lambda>a. case a of Round j io evs \<Rightarrow> if j = i then event_bytes evs else [] | _ \<Rightarrow> []) as)"

lemma delivered_simps [simp]:
  "delivered i [] = []"
  "delivered i (Round i io evs # as) = event_bytes evs @ delivered i as"
  "delivered i (as @ bs) = delivered i as @ delivered i bs"
  "delivered i (replicate n (ClientThread t)) = []"
  "delivered i [Resume j io] = []"
  by (simp_all add: delivered_def concat_replicate_trivial)

lemma serve_one:
  assumes inv: "sys_inv (x_ser ext) S" and rdy: "ready S i co" and ok: "request_ok r"
    and "serve_request r (protocol_at (sys_server S) co) = (w, P)"
  shows "\<exists>as S' co'. run_steps (exec ext dbg) as S = Some S' \<and> ready S' i co' \<and>
     protocol_at (sys_server S') co' = P \<and> co_written co' = co_written co @ w @ [newline] \<and>
     delivered i as = request_line r @ [newline]"
proof -
  let ?io = "good_io (sys_clock S)" and ?l = "request_line r" and ?s = "sys_server S"
  have p: "newline \<notin> set ?l" "utf8_valid (?l @ [newline])"
    using request_plain(1) [OF ok] plain_valid by (auto simp: plain_command_def)
  have sv: "serving ?s" using inv by (simp add: sys_inv_def)
  obtain co1 s1 where h: "handle_read ?io (ReadOk (Suc (length ?l)) (?l @ [newline])) co ?s = (co1, s1)" by fastforce
  have gio: "io_write ?io = Inr ()" "io_bind ?io = Inr ()" "io_now ?io = sys_clock S"
    by (simp_all add: good_io_def)
  note served = serve_request_round [OF sv ok gio(1,2) assms(4) h, unfolded served_def]
  let ?S1 = "S\<lparr>sys_conns := (sys_conns S)(i \<mapsto> co1), sys_server := s1\<rparr>"
  have e: "exec ext dbg (Round i ?io [Data (?l @ [newline])]) S = Some ?S1"
    using rdy h p gio(3) by (intro exec_read) (auto simp: ready_def instant_ok_def)
  have inv1: "sys_inv (x_ser ext) ?S1" by (rule exec_inv [OF inv e])
  define co' where "co' = settled ?io co1"
  have co': "co_pc co' = Reading" "co_buf co' = []" "co_last_ping co' = sys_clock S"
    "co_written co' = co_written co @ w @ [newline]"
    using served rdy by (simp_all add: co'_def ready_def gio(3))
  have P: "protocol_at s1 co' = P" unfolding co'_def using served by blast
  consider "co_pc co1 = Reading" | t a where "co_pc co1 = Joining t a" using served by blast
  then show ?thesis
  proof cases
    case 1
    then have "co1 = co'" by (simp add: co'_def settled_def)
    moreover have "\<not> clients_locked s1"
      using free_after_round [OF inv _ inv1, of i co1] rdy 1 by (simp add: ready_def joining_def)
    ultimately have "ready ?S1 i co'" using rdy co' by (simp add: ready_def)
    with e co' P show ?thesis
      by (intro exI [of _ "[Round i ?io [Data (?l @ [newline])]]"] exI [of _ ?S1] exI [of _ co']) simp
  next
    case (2 t a)
    have "sys_exit ?S1 = None" "sys_conns ?S1 i = Some co1" using rdy by (simp_all add: ready_def)
    from join_completes [OF inv1 this 2, of dbg ?io] obtain n S' where
      run: "run_steps (exec ext dbg) (replicate n (ClientThread t) @ [Resume i ?io]) ?S1 = Some S'"
      and S': "sys_conns S' = (sys_conns ?S1)(i \<mapsto> run_after ?io a co1)" "\<not> clients_locked (sys_server S')"
        "clients (sys_server S') = clients s1" "clients_count (sys_server S') = clients_count s1"
        "sys_clock S' = sys_clock S" "sys_exit S' = None" by auto
    have "run_after ?io a co1 = co'" using 2 by (simp add: co'_def settled_def)
    then have "ready S' i co'" using S' co' by (simp add: ready_def)
    moreover have "protocol_at (sys_server S') co' = P"
      using S'(3,4) P by (simp add: protocol_at_def subscriptions_def [abs_def])
    ultimately show ?thesis using e run co'(4)
      by (intro exI [of _ "Round i ?io [Data (?l @ [newline])] # replicate n (ClientThread t) @ [Resume i ?io]"]
          exI [of _ S'] exI [of _ co']) simp
  qed
qed

lemma serve_all:
  assumes "sys_inv (x_ser ext) S" and "ready S i co" and "list_all request_ok rs"
    and "serve_requests rs (protocol_at (sys_server S) co) = (ws, P)"
  shows "\<exists>as S' co'. run_steps (exec ext dbg) as S = Some S' \<and> ready S' i co' \<and>
     protocol_at (sys_server S') co' = P \<and> co_written co' = co_written co @ wire ws \<and>
     delivered i as = wire (map request_line rs)"
  using assms
proof (induction rs arbitrary: S co ws)
  case Nil
  then show ?case
    by (intro exI [of _ "[]"] exI [of _ S] exI [of _ co]) (simp add: wire_def)
next
  case (Cons r rs)
  obtain w P1 where w: "serve_request r (protocol_at (sys_server S) co) = (w, P1)" by fastforce
  obtain ws' where ws: "serve_requests rs P1 = (ws', P)" "ws = w # ws'"
    using Cons.prems(4) w by (auto split: prod.splits)
  have ok: "request_ok r" "list_all request_ok rs" using Cons.prems(3) by simp_all
  obtain as S1 co1 where one: "run_steps (exec ext dbg) as S = Some S1" "ready S1 i co1"
    "protocol_at (sys_server S1) co1 = P1" "co_written co1 = co_written co @ w @ [newline]"
    "delivered i as = request_line r @ [newline]"
    using serve_one [OF Cons.prems(1,2) ok(1) w, of dbg] by blast
  have "sys_inv (x_ser ext) S1" using program.run_inv [OF one(1) Cons.prems(1)] .
  from Cons.IH [OF this one(2) ok(2)] ws(1) one(3) obtain bs S2 co2 where
    "run_steps (exec ext dbg) bs S1 = Some S2" "ready S2 i co2" "protocol_at (sys_server S2) co2 = P"
    "co_written co2 = co_written co1 @ wire ws'" "delivered i bs = wire (map request_line rs)" by blast
  with one ws(2) show ?case
    by (intro exI [of _ "as @ bs"] exI [of _ S2] exI [of _ co2])
      (simp add: run_steps_append wire_def)
qed


section \<open>The client program\<close>

text \<open>A round of the command loop in which a request is typed and answered, cut into reads in any way.\<close>

definition typed_round :: "protocol_request \<Rightarrow> string \<Rightarrow> cli_io \<Rightarrow> bool" where
  "typed_round r w io \<longleftrightarrow> (\<exists>evs ios. data_events evs \<and> event_bytes evs = w @ [newline] \<and>
     io = \<lparr>ci_flush = None, ci_input = Inr (request_line r @ [newline]),
       ci_exchange = good_exchange evs, ci_reconnect = ios\<rparr>)"

fun typed_rounds :: "protocol_request list \<Rightarrow> string list \<Rightarrow> cli_io list \<Rightarrow> bool" where
  "typed_rounds [] [] [] \<longleftrightarrow> True"
| "typed_rounds (r # rs) (w # ws) (io # ios) \<longleftrightarrow> typed_round r w io \<and> typed_rounds rs ws ios"
| "typed_rounds _ _ _ \<longleftrightarrow> False"

definition terminal_text :: "string list \<Rightarrow> string" where
  "terminal_text ws = concat (map (\<lambda>w. ''quote-client> '' @ w @ [newline]) ws)"

lemma typed_session:
  assumes "list_all request_ok rs" and "serve_requests rs P = (ws, P')" and "typed_rounds rs ws ios"
    and "ln_buf (qc_link c) = []"
  shows "cli_loop ios c = Some (Continue,
     c\<lparr>qc_link := (qc_link c)\<lparr>ln_sent := ln_sent (qc_link c) @ wire (map request_line rs)\<rparr>,
       qc_stdout := qc_stdout c @ terminal_text ws\<rparr>)"
  using assms
proof (induction rs arbitrary: P ws ios c)
  case Nil
  then have "ws = []" and "ios = []" by (cases ios; simp)+
  then show ?case by (simp add: wire_def terminal_text_def)
next
  case (Cons r rs)
  obtain w P1 where w: "serve_request r P = (w, P1)" by fastforce
  obtain ws' where ws: "serve_requests rs P1 = (ws', P')" "ws = w # ws'"
    using Cons.prems(2) w by (auto split: prod.splits)
  obtain io ios' where io: "ios = io # ios'" "typed_round r w io" "typed_rounds rs ws' ios'"
    using Cons.prems(3) ws(2) by (cases ios) simp_all
  obtain evs rc where evs: "data_events evs" "event_bytes evs = w @ [newline]"
    "io = \<lparr>ci_flush = None, ci_input = Inr (request_line r @ [newline]),
       ci_exchange = good_exchange evs, ci_reconnect = rc\<rparr>"
    using io(2) unfolding typed_round_def by blast
  have ok: "request_ok r" "list_all request_ok rs" using Cons.prems(1) by simp_all
  have "answer_line (w @ [newline])" using reply_line [of r P] w by simp
  note round = cli_answered [OF request_plain [OF ok(1)] Cons.prems(4) evs(1,2) this, of rc]
  let ?c = "c\<lparr>qc_link := (qc_link c)\<lparr>ln_sent := ln_sent (qc_link c) @ request_line r @ [newline]\<rparr>,
       qc_stdout := qc_stdout c @ ''quote-client> '' @ w @ [newline]\<rparr>"
  have "cli_loop ios c = cli_loop ios' ?c" using io(1) evs(3) round by simp
  moreover have "ln_buf (qc_link ?c) = []" using Cons.prems(4) by simp
  from Cons.IH [OF ok(2) ws(1) io(3) this]
  have "cli_loop ios' ?c = Some (Continue,
      c\<lparr>qc_link := (qc_link c)\<lparr>ln_sent := ln_sent (qc_link c) @ wire (map request_line (r # rs))\<rparr>,
        qc_stdout := qc_stdout c @ terminal_text ws\<rparr>)"
    by (simp add: wire_def terminal_text_def ws(2))
  ultimately show ?case by simp
qed


section \<open>Sessions\<close>

text \<open>
  C5: a whole session refines the protocol. Take any state of the server program in which a
  connection can read its next command, any list of requests, and the replies and the
  registry that the abstract protocol gives for them. Then the server has a run in which
  exactly the bytes the client writes for these requests arrive on the connection, the
  handler writes exactly those replies, one line each, and the subscriptions of all clients,
  the next id and the id of this connection are those of the protocol, with the connection
  ready again; and the client that types the requests and reads those lines, in pieces of any
  size, prints its prompt and each reply in order and keeps its connection.
\<close>

theorem session_refines_protocol:
  assumes "reachable (started ext dbg) (exec ext dbg) S" and "ready S i co" and "list_all request_ok rs"
    and "serve_requests rs (protocol_at (sys_server S) co) = (ws, P)"
  shows "(\<exists>as S' co'. run_steps (exec ext dbg) as S = Some S' \<and> ready S' i co' \<and>
       delivered i as = wire (map request_line rs) \<and> co_written co' = co_written co @ wire ws \<and>
       protocol_at (sys_server S') co' = P) \<and>
     (\<forall>ios c. typed_rounds rs ws ios \<and> ln_buf (qc_link c) = [] \<longrightarrow>
       cli_loop ios c = Some (Continue,
         c\<lparr>qc_link := (qc_link c)\<lparr>ln_sent := ln_sent (qc_link c) @ wire (map request_line rs)\<rparr>,
           qc_stdout := qc_stdout c @ terminal_text ws\<rparr>))"
  using serve_all [OF program.reachable_inv [OF assms(1)] assms(2-4), of dbg]
    typed_session [OF assms(3,4)] by blast

definition example_requests :: "protocol_request list" where
  "example_requests = [Ping, Subscribe 127 0 0 1 50000 [''AAPL''], Other ''HELLO'', Stop]"

theorem session_refines_protocol_witness:
  "\<exists>as S' co'. run_steps (exec example_ext example_dbg) as (example_subscription [''AAPL'']) = Some S' \<and>
     co_written co' = co_written example_conn @
       wire [''PONG'', ''STREAM OK'', ''ERR Invalid command'', ''STOP OK''] \<and>
     pr_subs (protocol_at (sys_server S') co') = [0 \<mapsto> ([''AAPL''], udp_callback example_addr)]"
proof -
  let ?S = "example_subscription [''AAPL'']"
  have r: "ready ?S 0 example_conn"
    using example_conn_fields subscribed_server0_fields
    by (simp add: ready_def example_subscription_def example_start_def)
  have "plain_command ''HELLO''"
    by (simp add: plain_command_def is_ascii_def byte_of_def is_space_iff newline_def)
  moreover have "\<not> eq_ignore_ascii_case ''HELLO'' ''EXIT''" by code_simp
  ultimately have ok: "list_all request_ok example_requests"
    by (simp add: example_requests_def starts_with_def word_def is_ascii_def byte_of_def is_space_iff)
  have P: "protocol_at (sys_server ?S) example_conn =
      \<lparr>pr_subs = [0 \<mapsto> ([''AAPL''], udp_callback example_addr)], pr_next = 1, pr_mine = Some 0\<rparr>"
    by (auto simp: protocol_at_def example_subscription_def example_conn_fields subscribed_server0_fields
        subscriptions_def started_client_def)
  obtain Q where "serve_requests example_requests (protocol_at (sys_server ?S) example_conn) =
      ([''PONG'', ''STREAM OK'', ''ERR Invalid command'', ''STOP OK''], Q)"
    and "pr_subs Q = [0 \<mapsto> ([''AAPL''], udp_callback example_addr)]"
    unfolding P by (simp add: example_requests_def fun_upd_twist)
  from session_refines_protocol [OF example_subscription_reachable [OF tickers_ok_examples(1)] r ok this(1)] this(2)
  show ?thesis by blast
qed

end
