(* ===== verification/Options.thy ===== *)
theory Options
  imports System Quote_Client
begin

text \<open>
  The command lines of the two programs: the \<^verbatim>\<open>Opt\<close> structs of \<^verbatim>\<open>src/bins/server/main.rs\<close> and
  \<^verbatim>\<open>src/bins/client/main.rs\<close> and the beginning of each \<^verbatim>\<open>main\<close>. Splitting the arguments is
  done by the \<^verbatim>\<open>structopt\<close> crate: \<open>args\<close> gives the value it found for each option, by its
  long name. What the attributes say is modelled: the option names, the defaults, that
  \<^verbatim>\<open>--config\<close> is required, and the types.
\<close>

section \<open>The server\<close>

record server_opt =
  so_tcp_addr :: string
  so_config :: string
  so_log_level :: string

type_synonym arguments = "string \<rightharpoonup> string"

definition arg_or :: "arguments \<Rightarrow> string \<Rightarrow> string \<Rightarrow> string" where
  "arg_or args name dflt = (case args name of None \<Rightarrow> dflt | Some v \<Rightarrow> v)"

text \<open>No result: \<^verbatim>\<open>from_args\<close> prints the usage and exits.\<close>

definition server_from_args :: "arguments \<Rightarrow> server_opt option" where
  "server_from_args args = (case args ''config'' of
     None \<Rightarrow> None
   | Some path \<Rightarrow> Some
       \<lparr>so_tcp_addr = arg_or args ''tcp-addr'' ''127.0.0.1:33333'',
        so_config = path,
        so_log_level = arg_or args ''log-level'' ''info''\<rparr>)"

text \<open>\<^verbatim>\<open>main\<close>, given the file system and what binding an address results in.\<close>

definition server_program ::
    "'d externals \<Rightarrow> (string \<Rightarrow> string) \<Rightarrow> (tcp_server_error \<Rightarrow> string) \<Rightarrow> (nat \<Rightarrow> f64) \<Rightarrow> (nat \<Rightarrow> clock_reading)
     \<Rightarrow> (string \<Rightarrow> io_error + file_data) \<Rightarrow> (string \<Rightarrow> io_error + unit) \<Rightarrow> nat \<Rightarrow> arguments
     \<Rightarrow> (level_filter \<times> (cli_error + system)) option" where
  "server_program ext lower dbg rnd clk files bind clock args =
     map_option (\<lambda>opt. (init_logger lower (so_log_level opt),
         server_main ext dbg rnd clk (files (so_config opt)) (bind (so_tcp_addr opt)) clock))
       (server_from_args args)"


section \<open>The client\<close>

record client_opt =
  cp_server_addr :: string
  cp_udp_port :: u16
  cp_keep_alive_sec :: u64
  cp_log_level :: string

definition parse_u16 :: "string \<Rightarrow> u16 option" where
  "parse_u16 s = map_option of_nat (parse_uint (2 ^ 16) s)"

definition client_from_args :: "arguments \<Rightarrow> client_opt option" where
  "client_from_args args =
     (case (parse_u16 (arg_or args ''udp-port'' ''50000''), parse_u64 (arg_or args ''keep-alive-sec'' ''2'')) of
        (Some port, Some secs) \<Rightarrow> Some
          \<lparr>cp_server_addr = arg_or args ''server-addr'' ''127.0.0.1:33333'',
           cp_udp_port = port,
           cp_keep_alive_sec = secs,
           cp_log_level = arg_or args ''log-level'' ''info''\<rparr>
      | _ \<Rightarrow> None)"

text \<open>\<^verbatim>\<open>main\<close> up to its loops, given what connecting to an address and binding a port result in.\<close>

definition client_program ::
    "(string \<Rightarrow> string) \<Rightarrow> (string \<Rightarrow> connect_io) \<Rightarrow> (u16 \<Rightarrow> io_error + unit) \<Rightarrow> io_error + unit \<Rightarrow> io_error + unit
     \<Rightarrow> arguments \<Rightarrow> (level_filter \<times> (cli_error + quote_client)) option" where
  "client_program lower net bind timeout clone args =
     map_option (\<lambda>opt. (client_init_logger lower (cp_log_level opt),
         client_main (net (cp_server_addr opt)) (udp_setup (bind (cp_udp_port opt)) timeout clone)))
       (client_from_args args)"


section \<open>Properties\<close>

lemma client_defaults:
  "client_from_args Map.empty = Some \<lparr>cp_server_addr = ''127.0.0.1:33333'', cp_udp_port = 50000,
     cp_keep_alive_sec = 2, cp_log_level = ''info''\<rparr>"
proof -
  have d: "digits_val ''50000'' = 50000" "digits_val ''2'' = 2"
    by (simp_all add: digits_val_def digit_val_def byte_of_def)
  have "list_all is_digit ''50000''" "list_all is_digit ''2''" by (simp_all add: is_digit_def byte_of_def)
  with parse_uint_digits [of "''50000''" "2 ^ 16"] parse_uint_digits [of "''2''" "2 ^ 64"]
  have "parse_uint (2 ^ 16) ''50000'' = Some 50000" "parse_uint (2 ^ 64) ''2'' = Some 2" by (simp_all add: d)
  then show ?thesis by (simp add: client_from_args_def arg_or_def parse_u16_def parse_u64_def)
qed

text \<open>A read that times out by \<open>b\<close> on a connection whose last line came at \<open>a\<close> does not end it.\<close>

definition kept_until :: "nat \<Rightarrow> nat \<Rightarrow> bool" where
  "kept_until a b \<longleftrightarrow> (\<forall>io co s. co_last_ping co = a \<and> io_now io \<le> b \<longrightarrow>
     handle_timeout io co s = (co\<lparr>co_pc := Napping (io_now io + TCP_CONNECTION_TICK_PERIOD_MSEC)\<rparr>, s))"



end
