(* ===== verification/Library_Tests.thy ===== *)
theory Library_Tests
  imports System "HOL-Library.Monad_Syntax"
begin

text \<open>
  The unit tests of \<^verbatim>\<open>src/quote_generator.rs\<close>, \<^verbatim>\<open>src/client.rs\<close> and \<^verbatim>\<open>src/quote_server.rs\<close>, as
  computations over the model, and the proof that they pass. A test is a computation in
  \<open>option\<close>: a failing assertion or a failing \<^verbatim>\<open>unwrap\<close> gives \<open>None\<close>. What a test takes from
  outside is an argument: random draws, clock readings, the number of steps a thread manages
  while the test sleeps.
\<close>

section \<open>Results and assertions\<close>

definition unwrap :: "'e + 'a \<Rightarrow> 'a option" where
  "unwrap r = (case r of Inl _ \<Rightarrow> None | Inr a \<Rightarrow> Some a)"

definition assert :: "bool \<Rightarrow> unit option" where
  "assert b = (if b then Some () else None)"

lemma unwrap_simps [simp]: "unwrap (Inr a) = Some a" "unwrap (Inl e) = None"
  by (simp_all add: unwrap_def)

lemma assert_simps [simp]: "assert True = Some ()" "assert b = Some () \<longleftrightarrow> b"
  by (simp_all add: assert_def)

text \<open>\<^verbatim>\<open>assert_ne!\<close> on \<^verbatim>\<open>f64\<close>.\<close>

definition f64_ne :: "f64 \<Rightarrow> f64 \<Rightarrow> bool" where
  "f64_ne a b \<longleftrightarrow> \<not> (f64_le a b \<and> f64_le b a)"

text \<open>\<^verbatim>\<open>str::contains\<close>, and a member of a JSON object as text.\<close>

fun str_contains :: "string \<Rightarrow> string \<Rightarrow> bool" where
  "str_contains [] p \<longleftrightarrow> p = []"
| "str_contains (c # s) p \<longleftrightarrow> starts_with (c # s) p \<or> str_contains s p"

definition in_quotes :: "string \<Rightarrow> string" where
  "in_quotes s = CHR 0x22 # s @ [CHR 0x22]"

definition member_text :: "string \<Rightarrow> string \<Rightarrow> string" where
  "member_text k v = in_quotes k @ '':'' @ v"


section \<open>The generator\<close>

definition create_test_quotes :: "stock_quote list" where
  "create_test_quotes =
     [\<lparr>ticker = ''AAPL'', price = f64_lit 150 0, volume = 0, timestamp = 0\<rparr>,
      \<lparr>ticker = ''MSFT'', price = f64_lit 300 0, volume = 0, timestamp = 0\<rparr>,
      \<lparr>ticker = ''TSLA'', price = f64_lit 700 0, volume = 0, timestamp = 0\<rparr>,
      \<lparr>ticker = ''GOOG'', price = f64_lit 2800 0, volume = 0, timestamp = 0\<rparr>]"

text \<open>The vector is visited by index, in the order \<open>idxs\<close>.\<close>

definition test_update_vec ::
    "(f64 \<Rightarrow> f64 \<Rightarrow> normal_error + 'd) \<Rightarrow> ('d \<Rightarrow> nat \<Rightarrow> draw) \<Rightarrow> nat list \<Rightarrow> unit option" where
  "test_update_vec ln_new draws idxs = do {
     let quotes = (\<lambda>i. if i < length create_test_quotes then Some (create_test_quotes ! i) else None);
     generator \<leftarrow> unwrap (generator_new (f64_lit 1 (- 1)));
     let original_prices = map price create_test_quotes;
     let (r, quotes) = update_quotes ln_new draws idxs generator quotes;
     unwrap r;
     assert (list_all (\<lambda>i. case quotes i of
         None \<Rightarrow> False
       | Some q \<Rightarrow> f64_ne (price q) (original_prices ! i) \<and> 0 < volume q \<and> 0 < timestamp q)
       [0..<length create_test_quotes])
   }"

definition test_update_hashmap ::
    "(f64 \<Rightarrow> f64 \<Rightarrow> normal_error + 'd) \<Rightarrow> ('d \<Rightarrow> string \<Rightarrow> draw) \<Rightarrow> string list \<Rightarrow> unit option" where
  "test_update_hashmap ln_new draws ks = do {
     let quotes = foldl (\<lambda>m q. m(ticker q \<mapsto> q)) Map.empty create_test_quotes;
     generator \<leftarrow> unwrap (generator_new (f64_lit 2 (- 1)));
     let before = (\<lambda>k. map_option price (quotes k));
     let (r, quotes) = update_quotes ln_new draws ks generator quotes;
     unwrap r;
     assert (list_all (\<lambda>k. case (quotes k, before k) of
         (Some q, Some p) \<Rightarrow> f64_ne (price q) p \<and> 0 < volume q
       | _ \<Rightarrow> False) (map ticker create_test_quotes))
   }"

definition test_invalid_volatility :: "unit option" where
  "test_invalid_volatility =
     assert (case generator_new (f64_lit 0 0) of Inl (InvalidVolatility _) \<Rightarrow> True | _ \<Rightarrow> False)"

text \<open>What the tests rely on: the draw changes the price, and the clock is past the epoch.\<close>

definition draw_moves :: "draw \<Rightarrow> stock_quote \<Rightarrow> bool" where
  "draw_moves d q \<longleftrightarrow> f64_ne (f64_mul (price q) (multiplier d)) (price q) \<and> unit_interval (uniform d) \<and>
     (case now d of Inl _ \<Rightarrow> False | Inr ms \<Rightarrow> 0 < ms \<and> ms < 2 ^ 64)"

lemma draw_moves_updates:
  assumes "draw_moves d q"
  shows "f64_ne (price (snd (update_single_quote d q))) (price q)"
    and "0 < volume (snd (update_single_quote d q))"
    and "0 < timestamp (snd (update_single_quote d q))"
    and "is_ok (now d)"
proof -
  have "unit_interval (uniform d)" using assms by (simp add: draw_moves_def)
  from volume_range_aux [OF this, of q] show "0 < volume (snd (update_single_quote d q))"
    by (auto simp: word_less_nat_alt split: if_splits)
  obtain ms where ms: "now d = Inr ms" "0 < ms" "ms < 2 ^ 64"
    using assms by (auto simp: draw_moves_def split: sum.splits)
  have "timestamp (snd (update_single_quote d q)) = of_nat ms"
    using ms(1) by (simp add: update_single_quote_def Let_def)
  then show "0 < timestamp (snd (update_single_quote d q))"
    using ms(2,3) by (simp add: word_less_nat_alt unsigned_of_nat take_bit_nat_eq_self)
  show "is_ok (now d)" using ms(1) by (simp add: is_ok_def)
  show "f64_ne (price (snd (update_single_quote d q))) (price q)"
    using assms by (simp add: draw_moves_def update_single_price)
qed

lemma update_quotes_moved:
  assumes ln: "ln_new (f64_lit 0 0) (volatility g) = Inr ln" and ks: "distinct ks" "set ks = dom m"
    and moves: "\<And>k q. m k = Some q \<Longrightarrow> draw_moves (draws ln k) q"
  shows "fst (update_quotes ln_new draws ks g m) = Inr ()"
    and "m k = Some q \<Longrightarrow> \<exists>q'. snd (update_quotes ln_new draws ks g m) k = Some q' \<and>
      f64_ne (price q') (price q) \<and> 0 < volume q' \<and> 0 < timestamp q'"
proof -
  have u: "update_quotes ln_new draws ks g m = update_items (draws ln) ks m"
    by (simp add: update_quotes_def ln)
  have "\<forall>k \<in> set ks. is_ok (now (draws ln k))"
    using moves draw_moves_updates(4) ks(2) by blast
  then show "fst (update_quotes ln_new draws ks g m) = Inr ()"
    unfolding u using update_items_ok [OF ks(1), of m "draws ln"] ks(2) by blast
  assume k: "m k = Some q"
  then have "k \<in> set ks" using ks(2) by blast
  then have "snd (update_quotes ln_new draws ks g m) k = Some (snd (update_single_quote (draws ln k) q))"
    unfolding u using update_items_visited [OF ks(1), of k "draws ln" m] k by simp
  with draw_moves_updates [OF moves [OF k]] show "\<exists>q'. snd (update_quotes ln_new draws ks g m) k = Some q' \<and>
      f64_ne (price q') (price q) \<and> 0 < volume q' \<and> 0 < timestamp q'" by blast
qed


definition test_quote_map :: quotes where
  "test_quote_map = foldl (\<lambda>m q. m(ticker q \<mapsto> q)) Map.empty create_test_quotes"

lemma test_quote_map_at: "q \<in> set create_test_quotes \<Longrightarrow> test_quote_map (ticker q) = Some q"
  by (auto simp: test_quote_map_def create_test_quotes_def)

lemma dom_test_quote_map: "dom test_quote_map = ticker ` set create_test_quotes"
  by (auto simp: test_quote_map_def create_test_quotes_def)

lemma test_update_vec_passes:
  assumes ln: "\<And>v. ln_new (f64_lit 0 0) v = Inr ln"
    and "distinct idxs" and "set idxs = {0..<length create_test_quotes}"
    and moves: "\<And>i. i < length create_test_quotes \<Longrightarrow> draw_moves (draws ln i) (create_test_quotes ! i)"
  shows "test_update_vec ln_new draws idxs = Some ()"
proof -
  let ?g = "\<lparr>volatility = f64_lit 1 (- 1)\<rparr>"
  let ?m = "\<lambda>i. if i < length create_test_quotes then Some (create_test_quotes ! i) else None"
  have g: "generator_new (f64_lit 1 (- 1)) = Inr ?g" using generator_new_fraction [of 1 1] by simp
  have dom: "set idxs = dom ?m" unfolding assms(3) by (auto split: if_splits)
  have mv: "draw_moves (draws ln k) q" if "?m k = Some q" for k q
    using that moves by (auto split: if_splits)
  obtain r m where u: "update_quotes ln_new draws idxs ?g ?m = (r, m)" by fastforce
  have r: "r = Inr ()" using update_quotes_moved(1) [of ln_new ?g ln idxs ?m draws, OF ln assms(2) dom mv] u by simp
  have m: "\<exists>q'. m i = Some q' \<and> f64_ne (price q') (price (create_test_quotes ! i)) \<and>
      0 < volume q' \<and> 0 < timestamp q'" if "i < length create_test_quotes" for i
    using update_quotes_moved(2) [of ln_new ?g ln idxs ?m draws i, OF ln assms(2) dom mv] u that by simp
  have "list_all (\<lambda>i. case m i of None \<Rightarrow> False
       | Some q \<Rightarrow> f64_ne (price q) (map price create_test_quotes ! i) \<and> 0 < volume q \<and> 0 < timestamp q)
       [0..<length create_test_quotes]"
    unfolding list_all_iff using m by fastforce
  then show ?thesis using g u r by (simp add: test_update_vec_def)
qed

lemma test_update_hashmap_passes:
  assumes ln: "\<And>v. ln_new (f64_lit 0 0) v = Inr ln"
    and "distinct ks" and "set ks = ticker ` set create_test_quotes"
    and moves: "\<And>q. q \<in> set create_test_quotes \<Longrightarrow> draw_moves (draws ln (ticker q)) q"
  shows "test_update_hashmap ln_new draws ks = Some ()"
proof -
  let ?g = "\<lparr>volatility = f64_lit 2 (- 1)\<rparr>"
  have g: "generator_new (f64_lit 2 (- 1)) = Inr ?g" using generator_new_fraction [of 2 1] by simp
  have dom: "set ks = dom test_quote_map" using assms(3) dom_test_quote_map by simp
  have mv: "draw_moves (draws ln k) q" if "test_quote_map k = Some q" for k q
  proof -
    have "k \<in> ticker ` set create_test_quotes"
      using domI [of test_quote_map, OF that] unfolding dom_test_quote_map .
    then obtain q' where q': "q' \<in> set create_test_quotes" "k = ticker q'" by (elim imageE)
    then have "q = q'" using test_quote_map_at [OF q'(1)] that by simp
    with moves [of q'] q' show ?thesis by simp
  qed
  obtain r m where u: "update_quotes ln_new draws ks ?g test_quote_map = (r, m)" by fastforce
  have r: "r = Inr ()" using update_quotes_moved(1) [of ln_new ?g ln ks test_quote_map draws, OF ln assms(2) dom mv] u by simp
  have m: "\<exists>q'. m (ticker q) = Some q' \<and> f64_ne (price q') (price q) \<and> 0 < volume q'"
    if "q \<in> set create_test_quotes" for q
    using update_quotes_moved(2) [of ln_new ?g ln ks test_quote_map draws "ticker q", OF ln assms(2) dom mv]
      u test_quote_map_at [OF that] by auto
  have "list_all (\<lambda>k. case (m k, map_option price (test_quote_map k)) of
         (Some q, Some p) \<Rightarrow> f64_ne (price q) p \<and> 0 < volume q | _ \<Rightarrow> False) (map ticker create_test_quotes)"
    unfolding list_all_iff
  proof
    fix k
    assume "k \<in> set (map ticker create_test_quotes)"
    then obtain q where q: "k = ticker q" "q \<in> set create_test_quotes" by auto
    from m [OF q(2)] test_quote_map_at [OF q(2)]
    show "case (m k, map_option price (test_quote_map k)) of
        (Some q, Some p) \<Rightarrow> f64_ne (price q) p \<and> 0 < volume q | _ \<Rightarrow> False"
      unfolding q(1) by auto
  qed
  then show ?thesis using g u r unfolding test_update_hashmap_def test_quote_map_def [symmetric] by simp
qed

lemma test_invalid_volatility_passes: "test_invalid_volatility = Some ()"
  by (simp add: test_invalid_volatility_def generator_new_def f64_le_def f64_is_nan_def)


section \<open>The client\<close>

text \<open>
  While the test sleeps, thread \<open>t\<close> goes on for \<open>n\<close> steps, or until it blocks. A call that
  joins a thread gives it as much time.
\<close>

fun nap ::
    "(json \<Rightarrow> string) \<Rightarrow> quotes \<Rightarrow> nat \<Rightarrow> nat \<Rightarrow> ('w, 'z) runtime_scheme \<Rightarrow> ('w, 'z) runtime_scheme" where
  "nap ser qs 0 t rt = rt"
| "nap ser qs (Suc n) t rt = (case rt_step ser qs False t rt of
     None \<Rightarrow> rt
   | Some rt' \<Rightarrow> nap ser qs n t rt')"

definition send_unwrapped ::
    "(json \<Rightarrow> string) \<Rightarrow> quotes \<Rightarrow> nat \<Rightarrow> client_command \<Rightarrow> 'w client \<Rightarrow> 'w runtime
     \<Rightarrow> ('w client \<times> 'w runtime) option" where
  "send_unwrapped ser qs n cmd c rt = (case client_send cmd c rt of
     (Done r, c, rt) \<Rightarrow> map_option (\<lambda>_. (c, rt)) (unwrap r)
   | (Join t r, c, rt) \<Rightarrow>
       (let rt = nap ser qs n t rt in
        if rt_finished t rt then map_option (\<lambda>_. (c, client_joined t rt)) (unwrap r) else None))"

definition start_unwrapped :: "'w client \<Rightarrow> 'w runtime \<Rightarrow> ('w client \<times> 'w runtime) option" where
  "start_unwrapped c rt = (case client_start c rt of (r, c, rt) \<Rightarrow> map_option (\<lambda>_. (c, rt)) (unwrap r))"

text \<open>The callback of the tests collects the messages; before the test no thread runs.\<close>

definition collect :: "string list callback" where
  "collect json output = (Inr (), output @ [json])"

definition no_threads :: "'w \<Rightarrow> 'w runtime" where
  "no_threads w = \<lparr>rt_threads = Map.empty, rt_next = 0, rt_world = w\<rparr>"

definition test_client_receives_updates_and_calls_callback ::
    "(json \<Rightarrow> string) \<Rightarrow> f64 \<Rightarrow> clock_reading \<Rightarrow> nat \<Rightarrow> unit option" where
  "test_client_receives_updates_and_calls_callback ser rnd clk n = do {
     let single_quote = (new_quote rnd clk ''AAPL'')
       \<lparr>price := f64_lit 150 0, volume := 1000, timestamp := 123456\<rparr>;
     let quotes = [''AAPL'' \<mapsto> single_quote];
     let client = client_new [''AAPL''] collect;
     (client, rt) \<leftarrow> start_unwrapped client (no_threads []);
     (client, rt) \<leftarrow> send_unwrapped ser quotes n Update client rt;
     let rt = nap ser quotes n 0 rt;
     let result = rt_world rt;
     assert (length result = 1);
     let msg = result ! 0;
     assert (str_contains msg (member_text ''ticker'' (in_quotes ''AAPL'')));
     assert (str_contains msg (member_text ''price'' ''150.0''));
     assert (str_contains msg (member_text ''volume'' ''1000''));
     assert (str_contains msg (member_text ''timestamp'' ''123456''));
     (client, rt) \<leftarrow> send_unwrapped ser quotes n Shutdown client rt;
     Some ()
   }"

definition test_client_filters_unrelated_tickers ::
    "(json \<Rightarrow> string) \<Rightarrow> f64 \<Rightarrow> f64 \<Rightarrow> clock_reading \<Rightarrow> clock_reading \<Rightarrow> nat \<Rightarrow> unit option" where
  "test_client_filters_unrelated_tickers ser rnd rnd' clk clk' n = do {
     let quotes = [''AAPL'' \<mapsto> new_quote rnd clk ''AAPL'', ''MSFT'' \<mapsto> new_quote rnd' clk' ''MSFT''];
     let client = client_new [''MSFT''] collect;
     (client, rt) \<leftarrow> start_unwrapped client (no_threads []);
     (client, rt) \<leftarrow> send_unwrapped ser quotes n Update client rt;
     let rt = nap ser quotes n 0 rt;
     let result = rt_world rt;
     assert (length result = 1);
     assert (str_contains (result ! 0) (member_text ''ticker'' (in_quotes ''MSFT'')));
     (client, rt) \<leftarrow> send_unwrapped ser quotes n Shutdown client rt;
     Some ()
   }"

definition test_client_shutdown :: "(json \<Rightarrow> string) \<Rightarrow> nat \<Rightarrow> unit option" where
  "test_client_shutdown ser n = do {
     let client = client_new [] (\<lambda>json w. (Inr (), w));
     (client, rt) \<leftarrow> start_unwrapped client (no_threads ());
     (client, rt) \<leftarrow> send_unwrapped ser Map.empty n Shutdown client rt;
     Some ()
   }"

text \<open>
  What the tests rely on of \<^verbatim>\<open>serde_json\<close>: the text of a quote has its four members, with the
  ticker in quotes, integers in decimal and 150 as a float.
\<close>

definition json_members :: "(json \<Rightarrow> string) \<Rightarrow> bool" where
  "json_members ser \<longleftrightarrow> (\<forall>q. ticker q \<in> {''AAPL'', ''MSFT''} \<longrightarrow>
     str_contains (ser (quote_json q)) (member_text ''ticker'' (in_quotes (ticker q))) \<and>
     (price q = f64_lit 150 0 \<longrightarrow> str_contains (ser (quote_json q)) (member_text ''price'' ''150.0'')) \<and>
     str_contains (ser (quote_json q)) (member_text ''volume'' (show_u32 (volume q))) \<and>
     str_contains (ser (quote_json q)) (member_text ''timestamp'' (show_u64 (timestamp q))))"

lemma json_membersD:
  assumes "json_members ser" and "ticker q = t" and "t \<in> {''AAPL'', ''MSFT''}"
  shows "str_contains (ser (quote_json q)) (member_text ''ticker'' (in_quotes t))"
    and "price q = f64_lit 150 0 \<Longrightarrow> str_contains (ser (quote_json q)) (member_text ''price'' ''150.0'')"
    and "str_contains (ser (quote_json q)) (member_text ''volume'' (show_u32 (volume q)))"
    and "str_contains (ser (quote_json q)) (member_text ''timestamp'' (show_u64 (timestamp q)))"
  using mp [OF spec [OF assms(1) [unfolded json_members_def], of q]] assms(2,3) by blast+

lemma nap_run:
  assumes "rt_threads rt t = Some th"
    and "thread_run ser False (replicate k qs) th (rt_world rt) = Some (th', w')"
    and "thread_step ser qs False th' w' = None" and "k \<le> n"
  shows "nap ser qs n t rt = rt\<lparr>rt_threads := (rt_threads rt)(t \<mapsto> th'), rt_world := w'\<rparr>"
  using assms
proof (induction k arbitrary: n rt th)
  case 0
  then have e: "th' = th" "w' = rt_world rt" by simp_all
  have same: "rt\<lparr>rt_threads := (rt_threads rt)(t \<mapsto> th), rt_world := rt_world rt\<rparr> = rt"
    using 0(1) by (cases rt) (auto simp: fun_upd_idem)
  show ?case
  proof (cases n)
    case (Suc m)
    with 0 same e show ?thesis by (simp add: rt_step_def del: fun_upd_apply)
  qed (use same e in \<open>simp del: fun_upd_apply\<close>)
next
  case (Suc k)
  then obtain m where n: "n = Suc m" "k \<le> m" by (cases n) auto
  obtain th1 w1 where s: "thread_step ser qs False th (rt_world rt) = Some (th1, w1)"
    and r: "thread_run ser False (replicate k qs) th1 w1 = Some (th', w')"
    using Suc.prems(2) by (auto split: option.splits)
  let ?rt = "rt\<lparr>rt_threads := (rt_threads rt)(t \<mapsto> th1), rt_world := w1\<rparr>"
  have "rt_step ser qs False t rt = Some ?rt" using Suc.prems(1) s by (simp add: rt_step_def)
  moreover have "nap ser qs m t ?rt = ?rt\<lparr>rt_threads := (rt_threads ?rt)(t \<mapsto> th'), rt_world := w'\<rparr>"
    using Suc.IH [of ?rt th1 m] r Suc.prems(3) n(2)
    by (simp add: fun_upd_same del: fun_upd_apply)
  ultimately show ?case using n(1) by (simp del: fun_upd_apply)
qed


text \<open>A client is started, notified, given time, and shut down.\<close>

definition one_thread :: "string list \<Rightarrow> 'w callback \<Rightarrow> client_command list \<Rightarrow> 'w \<Rightarrow> 'w runtime" where
  "one_thread ts cb cmds w = \<lparr>rt_threads = [0 \<mapsto>
     \<lparr>th_tickers = ts, th_callback = cb, th_chan = \<lparr>ch_queue = cmds, ch_sender = True, ch_receiver = True\<rparr>,
      th_pc = Receiving\<rparr>], rt_next = 1, rt_world = w\<rparr>"

lemma test_start: "start_unwrapped (client_new ts cb) (no_threads w) = Some (started_client ts cb 0, one_thread ts cb [] w)"
  by (simp add: start_unwrapped_def client_start_new no_threads_def one_thread_def new_thread_def chan_new_def)

lemma test_update: "send_unwrapped ser qs n Update (started_client ts cb 0) (one_thread ts cb [] w) =
    Some (started_client ts cb 0, one_thread ts cb [Update] w)"
  by (simp add: send_unwrapped_def client_send_def started_client_def one_thread_def rt_send_def chan_send_def)

lemma test_nap:
  assumes "length ts + 2 \<le> n"
  shows "nap ser qs n 0 (one_thread ts cb [Update] w) = one_thread ts cb [] (deliver cb (messages ser qs ts) w)"
proof -
  define th where "th = \<lparr>th_tickers = ts, th_callback = cb,
    th_chan = \<lparr>ch_queue = [Update], ch_sender = True, ch_receiver = True\<rparr>, th_pc = Receiving\<rparr>"
  have th: "th_pc th = Receiving" "ch_queue (th_chan th) = Update # []" "th_tickers th = ts" "th_callback th = cb"
    by (simp_all add: th_def)
  have "nap ser qs n 0 (one_thread ts cb [Update] w) =
      (one_thread ts cb [Update] w)\<lparr>rt_threads := (rt_threads (one_thread ts cb [Update] w))(0 \<mapsto>
        th\<lparr>th_chan := (th_chan th)\<lparr>ch_queue := []\<rparr>\<rparr>), rt_world := deliver cb (messages ser qs ts) w\<rparr>"
  proof (rule nap_run [OF _ _ _ assms])
    show "thread_run ser False (replicate (length ts + 2) qs) th (rt_world (one_thread ts cb [Update] w)) =
        Some (th\<lparr>th_chan := (th_chan th)\<lparr>ch_queue := []\<rparr>\<rparr>, deliver cb (messages ser qs ts) w)"
      using update_round_aux [OF th(1,2), of ser qs w] by (simp add: th(3,4) one_thread_def)
  qed (simp_all add: one_thread_def th_def thread_step_def chan_recv_def)
  then show ?thesis by (simp add: one_thread_def th_def)
qed

lemma test_shutdown:
  assumes "0 < n"
  shows "\<exists>c rt. send_unwrapped ser qs n Shutdown (started_client ts cb 0) (one_thread ts cb [] w) = Some (c, rt)"
proof -
  have "nap ser qs n 0 (one_thread ts cb [Shutdown] w) = (one_thread ts cb [Shutdown] w)
      \<lparr>rt_threads := (rt_threads (one_thread ts cb [Shutdown] w))(0 \<mapsto>
        thread_finish (the (rt_threads (one_thread ts cb [] w) 0))), rt_world := w\<rparr>"
    using assms by (intro nap_run [of _ _ "the (rt_threads (one_thread ts cb [Shutdown] w) 0)" _ 1])
      (simp_all add: one_thread_def thread_step_def chan_recv_def thread_finish_def)
  moreover have "client_send Shutdown (started_client ts cb 0) (one_thread ts cb [] w) =
      (Join 0 (Inr ()), (started_client ts cb 0)\<lparr>cl_thread_handle := None, cl_tx := None\<rparr>, one_thread ts cb [Shutdown] w)"
    by (simp add: client_send_def started_client_def one_thread_def rt_send_def chan_send_def)
  ultimately show ?thesis by (simp add: send_unwrapped_def rt_finished_def thread_finish_def)
qed

lemma deliver_collect: "deliver collect ms w = w @ ms"
  by (induction ms arbitrary: w) (simp_all add: collect_def)

lemma one_thread_world: "rt_world (one_thread ts cb cmds w) = w"
  by (simp add: one_thread_def)

lemmas client_test_simps = test_start test_update test_nap deliver_collect one_thread_world

lemma test_client_shutdown_passes: "0 < n \<Longrightarrow> test_client_shutdown ser n = Some ()"
  using test_shutdown [of n ser Map.empty "[]" "\<lambda>json w. (Inr (), w)" "()"]
  by (auto simp: test_client_shutdown_def client_test_simps)

lemma test_client_filters_unrelated_tickers_passes:
  assumes "json_members ser" and "3 \<le> n"
  shows "test_client_filters_unrelated_tickers ser rnd rnd' clk clk' n = Some ()"
proof -
  let ?q = "new_quote rnd' clk' ''MSFT''" and ?qs = "[''AAPL'' \<mapsto> new_quote rnd clk ''AAPL'', ''MSFT'' \<mapsto> new_quote rnd' clk' ''MSFT'']"
  have "str_contains (ser (quote_json ?q)) (member_text ''ticker'' (in_quotes ''MSFT''))"
    using assms(1) by (rule json_membersD(1)) (simp_all add: new_quote_def)
  moreover have "0 < n" using assms(2) by simp
  from test_shutdown [OF this, of ser ?qs "[''MSFT'']" collect "[ser (quote_json ?q)]"]
  obtain c rt where "send_unwrapped ser ?qs n Shutdown (started_client [''MSFT''] collect 0)
      (one_thread [''MSFT''] collect [] [ser (quote_json ?q)]) = Some (c, rt)" by blast
  ultimately show ?thesis
    using assms(2)
    by (simp add: test_client_filters_unrelated_tickers_def client_test_simps)
qed


lemma digit_chars:
  "digit_char 0 = CHR ''0''" "digit_char (Suc 0) = CHR ''1''" "digit_char 2 = CHR ''2''" "digit_char 3 = CHR ''3''"
  "digit_char 4 = CHR ''4''" "digit_char 5 = CHR ''5''" "digit_char 6 = CHR ''6''" "digit_char 7 = CHR ''7''"
  by code_simp+

lemma test_client_receives_passes:
  assumes "json_members ser" and "3 \<le> n"
  shows "test_client_receives_updates_and_calls_callback ser rnd clk n = Some ()"
proof -
  let ?q = "(new_quote rnd clk ''AAPL'')\<lparr>price := f64_lit 150 0, volume := 1000, timestamp := 123456\<rparr>"
  let ?qs = "[''AAPL'' \<mapsto> ?q]" and ?m = "ser (quote_json ?q)"
  have t: "ticker ?q = ''AAPL''" "price ?q = f64_lit 150 0" by (simp_all add: new_quote_def)
  have v: "show_u32 (volume ?q) = ''1000''" "show_u64 (timestamp ?q) = ''123456''"
    by (simp_all add: show_u32_def show_u64_def show_nat.simps digit_chars)
  have "str_contains ?m (member_text ''ticker'' (in_quotes ''AAPL''))"
    "str_contains ?m (member_text ''price'' ''150.0'')"
    "str_contains ?m (member_text ''volume'' ''1000'')"
    "str_contains ?m (member_text ''timestamp'' ''123456'')"
    using json_membersD [OF assms(1) t(1)] t(2) v by simp_all
  moreover have "0 < n" using assms(2) by simp
  from test_shutdown [OF this, of ser ?qs "[''AAPL'']" collect "[?m]"]
  obtain c rt where "send_unwrapped ser ?qs n Shutdown (started_client [''AAPL''] collect 0)
      (one_thread [''AAPL''] collect [] [?m]) = Some (c, rt)" by blast
  ultimately show ?thesis
    using assms(2)
    by (simp add: test_client_receives_updates_and_calls_callback_def client_test_simps)
qed


section \<open>The quote server\<close>

text \<open>A temporary file written with \<^verbatim>\<open>writeln!\<close>.\<close>

definition written_lines :: "string list \<Rightarrow> file_data" where
  "written_lines ls = \<lparr>fd_bytes = concat (map (\<lambda>l. l @ [newline]) ls), fd_error = None\<rparr>"

definition test_from_config_valid_file ::
    "(string \<Rightarrow> string) \<Rightarrow> (nat \<Rightarrow> f64) \<Rightarrow> (nat \<Rightarrow> clock_reading) \<Rightarrow> unit option" where
  "test_from_config_valid_file tbl rnd clk = do {
     let server = from_config tbl rnd clk () (Inr (written_lines [''AAPL'', ''GOOG'', ''MSFT'']));
     assert (is_ok server);
     server \<leftarrow> unwrap server;
     assert (quotes server ''AAPL'' \<noteq> None);
     assert (quotes server ''GOOG'' \<noteq> None);
     assert (quotes server ''MSFT'' \<noteq> None)
   }"

definition test_from_config_invalid_file ::
    "(string \<Rightarrow> string) \<Rightarrow> (nat \<Rightarrow> f64) \<Rightarrow> (nat \<Rightarrow> clock_reading) \<Rightarrow> io_error \<Rightarrow> unit option" where
  "test_from_config_invalid_file tbl rnd clk not_found = do {
     let server = from_config tbl rnd clk () (Inl not_found);
     assert (\<not> is_ok server);
     assert (case server of Inl (InvalidConfig _) \<Rightarrow> True | _ \<Rightarrow> False)
   }"

text \<open>A call of the server; when it joins a thread, that thread goes on for \<open>n\<close> steps.\<close>

definition call_unwrapped ::
    "(json \<Rightarrow> string) \<Rightarrow> nat \<Rightarrow> ('e + 'a) call \<times> 'w quote_server \<Rightarrow> ('a \<times> 'w quote_server) option" where
  "call_unwrapped ser n ks = (case ks of
     (Done r, s) \<Rightarrow> map_option (\<lambda>a. (a, s)) (unwrap r)
   | (Join t r, s) \<Rightarrow> (case call_resume t (nap ser (quotes s) n t s) of
       None \<Rightarrow> None
     | Some s \<Rightarrow> map_option (\<lambda>a. (a, s)) (unwrap r)))"

definition test_add_and_remove_client ::
    "'d externals \<Rightarrow> (nat \<Rightarrow> f64) \<Rightarrow> (nat \<Rightarrow> clock_reading) \<Rightarrow> 'd pass \<Rightarrow> nat \<Rightarrow> unit option" where
  "test_add_and_remove_client ext rnd clk p n = do {
     server \<leftarrow> unwrap (from_config (x_upper ext) rnd clk [] (Inr (written_lines [''AAPL''])));
     (client_id, server) \<leftarrow> call_unwrapped (x_ser ext) n (add_client [''AAPL''] collect server);
     (r, server) \<leftarrow> update_loop ext p [(0, server)];
     unwrap r;
     let (r, server) = notify_clients [client_id] server;
     unwrap r;
     let server = nap (x_ser ext) (quotes server) n 0 server;
     let messages = rt_world server;
     assert (length messages = 1);
     assert (str_contains (messages ! 0) (member_text ''ticker'' (in_quotes ''AAPL'')));
     (_, server) \<leftarrow> call_unwrapped (x_ser ext) n (remove_client client_id server);
     Some ()
   }"

lemma file_lines_written:
  assumes "list_all (\<lambda>l. newline \<notin> set l \<and> ascii l \<and> strip_cr l = l) ls"
  shows "file_lines (written_lines ls) = map Inr ls"
proof -
  have "split_on (\<lambda>c. c = newline) (concat (map (\<lambda>l. l @ [newline]) ls)) = ls @ [[]]"
    using assms
  proof (induction ls)
    case (Cons l ls)
    then have "\<forall>c \<in> set l. c \<noteq> newline" by auto
    then have "split_on (\<lambda>c. c = newline) (l @ newline # concat (map (\<lambda>l. l @ [newline]) ls)) =
        l # split_on (\<lambda>c. c = newline) (concat (map (\<lambda>l. l @ [newline]) ls))"
      by (rule split_on_append_sep) simp
    with Cons show ?case by simp
  qed simp
  then have "file_lines (written_lines ls) = map (\<lambda>l. map_sum id strip_cr (check_utf8 l)) ls"
    by (simp add: file_lines_def written_lines_def)
  also have "\<dots> = map Inr ls"
    using assms by (auto simp: list_all_iff check_utf8_def utf8_valid_ascii)
  finally show ?thesis .
qed

definition capitals :: "string \<Rightarrow> bool" where
  "capitals t \<longleftrightarrow> t \<noteq> [] \<and> list_all (\<lambda>c. 65 \<le> byte_of c \<and> byte_of c \<le> 90) t"

lemma capitals_line:
  assumes "capitals t"
  shows "newline \<notin> set t \<and> ascii t \<and> strip_cr t = t" and "to_uppercase tbl (trim t) = t"
proof -
  have c: "is_ascii c \<and> \<not> is_space c \<and> ascii_upper c = c \<and> c \<noteq> newline \<and> c \<noteq> CHR 0x0D" if "c \<in> set t" for c
    using assms that unfolding capitals_def list_all_iff
    by (auto simp: is_ascii_def is_space_iff ascii_upper_def newline_def byte_of_def)
  have ascii: "ascii t" using c by (simp add: list_all_iff)
  have "strip_cr t = t" unfolding strip_cr_def using c last_in_set by fastforce
  with ascii c show "newline \<notin> set t \<and> ascii t \<and> strip_cr t = t" by blast
  have ne: "t \<noteq> []" using assms by (simp add: capitals_def)
  then have "dropWhile is_space t = t" "dropWhile is_space (rev t) = rev t"
    using c [OF hd_in_set [OF ne]] c [OF last_in_set [OF ne]] by (simp_all add: dropWhile_eq_self_iff hd_rev)
  then have "trim t = t" using ascii by (simp add: trim_ascii trim_end_def)
  then show "to_uppercase tbl (trim t) = t"
    using c ascii by (simp add: to_uppercase_ascii map_idI)
qed


lemma from_config_capitals:
  assumes "list_all capitals ls"
  obtains m where "from_config tbl rnd clk w (Inr (written_lines ls)) = Inr (initial_server m \<lparr>volatility = VOLATILITY\<rparr> w)"
    and "dom m = set ls" and "quotes_wf m"
proof -
  have lines: "file_lines (written_lines ls) = map Inr ls"
    using assms capitals_line(1) by (intro file_lines_written) (auto simp: list_all_iff)
  have "load_tickers tbl rnd clk (map Inr ls) m0 n0 \<noteq> Inl e" for m0 n0 e
    using load_tickers_error [of tbl rnd clk "map Inr ls" m0 n0 e] by (auto simp: map_eq_append_conv)
  then obtain m n where l: "load_tickers tbl rnd clk (map Inr ls) Map.empty 0 = Inr (m, n)"
    by (metis obj_sumE surj_pair)
  have cap: "t \<noteq> [] \<and> to_uppercase tbl (trim t) = t" if "t \<in> set ls" for t
    using assms that capitals_line(2) [of t tbl] by (simp add: list_all_iff capitals_def)
  have "{t. t \<noteq> [] \<and> (\<exists>l. Inr l \<in> set (map Inr ls) \<and> t = to_uppercase tbl (trim l))} = set ls"
    using cap by auto
  then have "dom m = set ls" "quotes_wf m"
    using load_tickers_ok [OF l] by (simp_all add: quotes_wf_def)
  moreover have "from_config tbl rnd clk w (Inr (written_lines ls)) = Inr (initial_server m \<lparr>volatility = VOLATILITY\<rparr> w)"
    using l by (simp add: from_config_def lines volatility_ok)
  ultimately show thesis using that by blast
qed

lemma capitals_tickers: "capitals ''AAPL''" "capitals ''GOOG''" "capitals ''MSFT''"
  by (simp_all add: capitals_def byte_of_def)

lemma test_from_config_valid_file_passes: "test_from_config_valid_file tbl rnd clk = Some ()"
proof -
  have "list_all capitals [''AAPL'', ''GOOG'', ''MSFT'']" by (simp add: capitals_tickers)
  then obtain m where "from_config tbl rnd clk () (Inr (written_lines [''AAPL'', ''GOOG'', ''MSFT''])) =
      Inr (initial_server m \<lparr>volatility = VOLATILITY\<rparr> ())" and "dom m = set [''AAPL'', ''GOOG'', ''MSFT'']"
    by (rule from_config_capitals)
  moreover from this(2) have "m ''AAPL'' \<noteq> None" "m ''GOOG'' \<noteq> None" "m ''MSFT'' \<noteq> None"
    unfolding domIff [symmetric] by simp_all
  ultimately show ?thesis by (simp add: test_from_config_valid_file_def initial_server_def)
qed

lemma test_from_config_invalid_file_passes: "test_from_config_invalid_file tbl rnd clk e = Some ()"
  by (simp add: test_from_config_invalid_file_def from_config_def)


text \<open>The server with the one client of the test, which has these commands waiting.\<close>

definition waiting_thread :: "client_command list \<Rightarrow> string list client_thread" where
  "waiting_thread cmds = \<lparr>th_tickers = [''AAPL''], th_callback = collect,
    th_chan = \<lparr>ch_queue = cmds, ch_sender = True, ch_receiver = True\<rparr>, th_pc = Receiving\<rparr>"

definition client_server :: "client_command list \<Rightarrow> string list \<Rightarrow> quotes \<Rightarrow> string list quote_server" where
  "client_server cmds w m = (initial_server m \<lparr>volatility = VOLATILITY\<rparr> w)\<lparr>rt_threads := [0 \<mapsto> waiting_thread cmds],
     rt_next := 1, clients_count := 1, clients := [0 \<mapsto> started_client [''AAPL''] collect 0]\<rparr>"

lemmas client_server_defs = client_server_def waiting_thread_def initial_server_def

lemma push_waiting: "push_cmd c (waiting_thread cmds) = waiting_thread (cmds @ [c])"
  by (simp add: waiting_thread_def push_cmd_def)

lemma client_server_add:
  "add_client [''AAPL''] collect (initial_server m \<lparr>volatility = VOLATILITY\<rparr> []) = (Done (Inr 0), client_server [] [] m)"
  by (subst add_client_fresh) (simp_all add: client_server_defs new_thread_def chan_new_def)

lemma client_server_serves:
  "Shutdown \<notin> set cmds \<Longrightarrow> serves (client_server cmds w m) (started_client [''AAPL''] collect 0) 0"
  by (simp add: serves_def client_server_defs started_client_def live_def)

lemma client_server_update:
  assumes "x_lognormal ext (f64_lit 0 0) VOLATILITY = Inr ln" and "m ''AAPL'' = Some q"
    and "pass_order p = [''AAPL'']" and "is_ok (now (pass_draws p ln ''AAPL''))"
  shows "update_loop ext p [(0, client_server [] [] m)] =
    Some (Inr (), client_server [] [] (m(''AAPL'' \<mapsto> snd (update_single_quote (pass_draws p ln ''AAPL'') q))))"
proof -
  obtain q' where single: "update_single_quote (pass_draws p ln ''AAPL'') q = (Inr (), q')"
    using assms(4) update_single_result [of "pass_draws p ln ''AAPL''" q]
    by (cases "update_single_quote (pass_draws p ln ''AAPL'') q") (auto simp: is_ok_def split: sum.splits)
  then have "update_quotes (x_lognormal ext) (pass_draws p) (pass_order p) \<lparr>volatility = VOLATILITY\<rparr> m =
      (Inr (), m(''AAPL'' \<mapsto> q'))"
    using assms(1-3) by (simp add: update_quotes_def)
  moreover have "try_write (client_server [] [] m)"
    by (simp add: try_write_def read_locked_def client_server_defs is_notifying_def)
  ultimately show ?thesis
    using single by (simp add: update_attempt_def WRITE_TIMEOUT_MS_def client_server_def initial_server_def)
qed

lemma client_server_notify: "notify_clients [0] (client_server [] w m) = (Inr (), client_server [Update] w m)"
  using client_send_serving(1) [OF client_server_serves [of "[]" w m]] push_waiting [of Update "[]"]
  by (simp add: notify_clients_def client_server_def initial_server_def)

lemma client_server_nap:
  assumes "3 \<le> n"
  shows "nap ser m n 0 (client_server [Update] [] m) = client_server [] (messages ser m [''AAPL'']) m"
proof -
  let ?th = "waiting_thread [Update]" and ?s = "client_server [Update] [] m"
  have "th_pc ?th = Receiving" "ch_queue (th_chan ?th) = Update # []"
    "th_tickers ?th = [''AAPL'']" "th_callback ?th = collect"
    by (simp_all add: waiting_thread_def)
  note round = update_round_aux [OF this(1,2), of ser m "[]", unfolded this(3,4)]
  have "nap ser m n 0 ?s = ?s\<lparr>rt_threads := (rt_threads ?s)(0 \<mapsto>
      ?th\<lparr>th_chan := (th_chan ?th)\<lparr>ch_queue := []\<rparr>\<rparr>), rt_world := messages ser m [''AAPL'']\<rparr>"
    by (rule nap_run [of _ _ ?th _ "length [''AAPL''] + 2"])
      (use round assms in \<open>simp_all add: client_server_defs thread_step_def chan_recv_def deliver_collect\<close>)
  then show ?thesis by (simp add: client_server_defs)
qed

lemma client_server_remove:
  assumes "0 < n"
  shows "call_unwrapped ser n (remove_client 0 (client_server [] w m)) \<noteq> None"
proof -
  let ?s = "(client_server [Shutdown] w m)\<lparr>clients := Map.empty, clients_locked := True\<rparr>"
  have "remove_client 0 (client_server [] w m) = (Join 0 (Inr ()), ?s)"
    by (subst remove_client_registered [OF _ _ client_server_serves, where th = "waiting_thread []"])
      (simp_all add: client_server_def initial_server_def push_waiting)
  moreover have "nap ser m n 0 ?s =
      ?s\<lparr>rt_threads := (rt_threads ?s)(0 \<mapsto> thread_finish (waiting_thread [])), rt_world := w\<rparr>"
    by (rule nap_run [of _ _ "waiting_thread [Shutdown]" _ 1])
      (use assms in \<open>simp_all add: client_server_defs thread_step_def chan_recv_def thread_finish_def\<close>)
  ultimately show ?thesis
    by (simp add: call_unwrapped_def call_resume_def rt_finished_def thread_finish_def client_server_def initial_server_def)
qed

lemma test_add_and_remove_client_passes:
  assumes ser: "json_members (x_ser ext)" and n: "3 \<le> n"
    and ln: "x_lognormal ext (f64_lit 0 0) VOLATILITY = Inr ln"
    and pass: "pass_order p = [''AAPL'']" "is_ok (now (pass_draws p ln ''AAPL''))"
  shows "test_add_and_remove_client ext rnd clk p n = Some ()"
proof -
  have "list_all capitals [''AAPL'']" by (simp add: capitals_tickers)
  then obtain m where fc: "from_config (x_upper ext) rnd clk ([] :: string list) (Inr (written_lines [''AAPL''])) =
      Inr (initial_server m \<lparr>volatility = VOLATILITY\<rparr> [])" and d: "dom m = set [''AAPL'']" and wf: "quotes_wf m"
    by (rule from_config_capitals)
  have "''AAPL'' \<in> dom m" using d by simp
  then obtain q where q: "m ''AAPL'' = Some q" by (rule domD [THEN exE])
  define q' where "q' = snd (update_single_quote (pass_draws p ln ''AAPL'') q)"
  have "ticker q' = ''AAPL''" using q wf by (simp add: q'_def update_single_ticker quotes_wf_def)
  then have "str_contains (x_ser ext (quote_json q')) (member_text ''ticker'' (in_quotes ''AAPL''))"
    using ser by (intro json_membersD(1)) simp_all
  moreover have "0 < n" using n by simp
  from client_server_remove [OF this, of "x_ser ext" "[x_ser ext (quote_json q')]" "m(''AAPL'' \<mapsto> q')"]
  obtain r where "call_unwrapped (x_ser ext) n
      (remove_client 0 (client_server [] [x_ser ext (quote_json q')] (m(''AAPL'' \<mapsto> q')))) = Some r" by blast
  moreover have "quotes (client_server cmds w m) = m" "rt_world (client_server cmds w m) = w" for cmds w m
    by (simp_all add: client_server_def initial_server_def)
  ultimately show ?thesis
    unfolding test_add_and_remove_client_def fc
    using client_server_add [of m] client_server_update [of ext ln m q p, OF ln q pass, folded q'_def] n
    by (simp add: client_server_notify client_server_nap call_unwrapped_def del: update_loop.simps)
qed


section \<open>Values that satisfy the assumptions\<close>

text \<open>A product of two small integers is exact; the price doubles.\<close>

definition exact_int :: "nat \<Rightarrow> bool" where
  "exact_int c \<longleftrightarrow> scaled (dec_mag c 0) = c * f64_unit \<and> dec_mag c 0 < inf_mag"

lemma exact_intI:
  assumes "c = (2 ^ 52 + f) * 2 ^ e div 2 ^ 52" and "2 ^ 52 dvd (2 ^ 52 + f) * 2 ^ e"
    and "f < 2 ^ 52" and "e \<le> 100"
  shows "exact_int c"
proof -
  have e: "e \<le> 1023" using assms(4) by simp
  note m = integer_mag [OF assms(1-3) e]
  have "(1023 + e) * 2 ^ 52 + f \<le> 1123 * 2 ^ 52 + f" using assms(4) by simp
  also have "\<dots> < inf_mag" using assms(3) by simp
  finally show ?thesis using m by (simp add: exact_int_def)
qed

lemma exact_ints: "exact_int 2" "exact_int 150" "exact_int 300" "exact_int 600" "exact_int 700" "exact_int 1400"
    "exact_int 2800" "exact_int 5600"
  using exact_intI [of 2 0 1] exact_intI [of 150 "22 * 2 ^ 45" 7] exact_intI [of 300 "22 * 2 ^ 45" 8]
    exact_intI [of 600 "22 * 2 ^ 45" 9] exact_intI [of 700 "188 * 2 ^ 43" 9] exact_intI [of 1400 "188 * 2 ^ 43" 10]
    exact_intI [of 2800 "188 * 2 ^ 43" 11] exact_intI [of 5600 "188 * 2 ^ 43" 12]
  by simp_all

lemma f64_mul_exact:
  assumes "exact_int a" and "exact_int b"
  shows "f64_mul (f64_lit a 0) (f64_lit b 0) = f64_lit (a * b) 0"
proof -
  have "round_mag (a * b * f64_unit * f64_unit) (1 * f64_unit) = round_mag (a * b * f64_unit) 1"
    by (rule round_mag_scale) simp_all
  then show ?thesis
    using assms by (simp add: f64_mul_def exact_int_def f64_is_nan_def f64_is_inf_def f64_lit_def dec_mag_def mult_ac)
qed

lemma f64_ne_exact:
  assumes "exact_int a" and "exact_int b" and "a \<noteq> b"
  shows "f64_ne (f64_lit a 0) (f64_lit b 0)"
proof -
  have "a * f64_unit \<noteq> b * f64_unit"
    using assms(3) unfolding mult_right_cancel [OF gr_implies_not0 [OF f64_unit_pos]] .
  then have "dec_mag a 0 \<noteq> dec_mag b 0" using assms(1,2) unfolding exact_int_def by metis
  then show ?thesis by (auto simp: f64_ne_def f64_le_def f64_key_def)
qed

definition doubling_draw :: draw where
  "doubling_draw = \<lparr>multiplier = f64_lit 2 0, uniform = f64_lit 0 0, now = Inr 1\<rparr>"

lemma doubling_moves: "q \<in> set create_test_quotes \<Longrightarrow> draw_moves doubling_draw q"
  using f64_mul_exact [OF exact_ints(2,1)] f64_mul_exact [OF exact_ints(3,1)]
    f64_mul_exact [OF exact_ints(5,1)] f64_mul_exact [OF exact_ints(7,1)] f64_ne_exact exact_ints
  by (auto simp: create_test_quotes_def draw_moves_def doubling_draw_def unit_interval_def)


text \<open>A serializer of flat values.\<close>

fun atom_text :: "json \<Rightarrow> string" where
  "atom_text (JString t) = in_quotes t"
| "atom_text (JF64 x) = (if x = f64_lit 150 0 then ''150.0'' else show_f64 x)"
| "atom_text (JU32 n) = show_u32 n"
| "atom_text (JU64 n) = show_u64 n"
| "atom_text (JObject fs) = ''{}''"

fun members_text :: "(string \<times> json) list \<Rightarrow> string" where
  "members_text [] = ''}''"
| "members_text [(k, v)] = member_text k (atom_text v) @ ''}''"
| "members_text ((k, v) # fs) = member_text k (atom_text v) @ '','' @ members_text fs"

fun flat_json :: "json \<Rightarrow> string" where
  "flat_json (JObject fs) = ''{'' @ members_text fs"
| "flat_json j = atom_text j"

lemma str_contains_here: "str_contains (p @ s) p"
  by (cases p; cases s) (simp_all add: starts_with_def)

lemma str_contains_later: "str_contains s p \<Longrightarrow> str_contains (r @ s) p"
  by (induction r) simp_all

lemma flat_json_members: "json_members flat_json"
  unfolding json_members_def
proof (intro allI impI conjI)
  fix q :: stock_quote
  let ?t = "member_text ''ticker'' (in_quotes (ticker q))" and ?p = "member_text ''price'' (atom_text (JF64 (price q)))"
    and ?v = "member_text ''volume'' (show_u32 (volume q))" and ?c = "member_text ''timestamp'' (show_u64 (timestamp q))"
  have e: "flat_json (quote_json q) = ''{'' @ ?t @ '','' @ ?p @ '','' @ ?v @ '','' @ ?c @ ''}''"
    by (simp add: quote_json_def)
  show "str_contains (flat_json (quote_json q)) ?t" "str_contains (flat_json (quote_json q)) ?v"
    "str_contains (flat_json (quote_json q)) ?c"
    unfolding e by (intro str_contains_later str_contains_here)+
  assume "price q = f64_lit 150 0"
  then have "?p = member_text ''price'' ''150.0''" by simp
  moreover have "str_contains (flat_json (quote_json q)) ?p"
    unfolding e by (intro str_contains_later str_contains_here)
  ultimately show "str_contains (flat_json (quote_json q)) (member_text ''price'' ''150.0'')" by simp
qed


section \<open>Properties\<close>



end
