(* ===== verification/Protocol_Tests.thy ===== *)
theory Protocol_Tests
  imports Session Library_Tests
begin

text \<open>
  The unit tests of \<^verbatim>\<open>src/tcp_server.rs\<close>: a listener with a quote server of one ticker that has
  not been started, and one connection that sends commands and reads the answers. The quiet
  system of the test is scheduled as the test waits for it: the handler's round, then, if it
  waits for a client thread, that thread's step and the rest of the round. At the end, the
  three tests of the client program.
\<close>

section \<open>The tests\<close>

definition create_test_quote_server ::
    "'d externals \<Rightarrow> (nat \<Rightarrow> f64) \<Rightarrow> (nat \<Rightarrow> clock_reading) \<Rightarrow> server option" where
  "create_test_quote_server ext rnd clk =
     unwrap (from_config (x_upper ext) rnd clk [] (Inr (written_lines [''AAPL''])))"

text \<open>The listener is bound and its thread started; 100 ms later the test connects.\<close>

definition connected_test ::
    "'d externals \<Rightarrow> (tcp_server_error \<Rightarrow> string) \<Rightarrow> server \<Rightarrow> system option" where
  "connected_test ext dbg qs = do {
     unwrap (tcp_bind (Inr ()));
     run_steps (exec ext dbg) [Tick 100, Accept (Inr (Inr (), Inr ()))]
       \<lparr>sys_server = qs, sys_conns = Map.empty, sys_next = 0, sys_clock = 0, sys_exit = None\<rparr>
   }"

text \<open>The test writes a line and reads what the handler has written since, at most 128 bytes.\<close>

definition write_and_read ::
    "'d externals \<Rightarrow> (tcp_server_error \<Rightarrow> string) \<Rightarrow> string \<Rightarrow> system \<Rightarrow> (string \<times> system) option" where
  "write_and_read ext dbg bs S = do {
     co \<leftarrow> sys_conns S 0;
     S1 \<leftarrow> exec ext dbg (Round 0 (good_io (sys_clock S)) [Data bs]) S;
     co1 \<leftarrow> sys_conns S1 0;
     S2 \<leftarrow> (case joining co1 of
         None \<Rightarrow> Some S1
       | Some t \<Rightarrow> run_steps (exec ext dbg) [ClientThread t, Resume 0 (good_io (sys_clock S))] S1);
     co2 \<leftarrow> sys_conns S2 0;
     Some (take 128 (drop (length (co_written co)) (co_written co2)), S2)
   }"

definition test_ping_pong ::
    "'d externals \<Rightarrow> (tcp_server_error \<Rightarrow> string) \<Rightarrow> (nat \<Rightarrow> f64) \<Rightarrow> (nat \<Rightarrow> clock_reading) \<Rightarrow> unit option" where
  "test_ping_pong ext dbg rnd clk = do {
     qs \<leftarrow> create_test_quote_server ext rnd clk;
     S \<leftarrow> connected_test ext dbg qs;
     (buf, S) \<leftarrow> write_and_read ext dbg (''PING'' @ [newline]) S;
     assert (trim (from_utf8_lossy buf) = ''PONG'')
   }"

definition test_invalid_command ::
    "'d externals \<Rightarrow> (tcp_server_error \<Rightarrow> string) \<Rightarrow> (nat \<Rightarrow> f64) \<Rightarrow> (nat \<Rightarrow> clock_reading) \<Rightarrow> unit option" where
  "test_invalid_command ext dbg rnd clk = do {
     qs \<leftarrow> create_test_quote_server ext rnd clk;
     S \<leftarrow> connected_test ext dbg qs;
     (buf, S) \<leftarrow> write_and_read ext dbg (''BLAH'' @ [newline]) S;
     assert (trim (from_utf8_lossy buf) = ''ERR Invalid command'')
   }"

definition test_stream_registers_client ::
    "'d externals \<Rightarrow> (tcp_server_error \<Rightarrow> string) \<Rightarrow> (nat \<Rightarrow> f64) \<Rightarrow> (nat \<Rightarrow> clock_reading) \<Rightarrow> unit option" where
  "test_stream_registers_client ext dbg rnd clk = do {
     qs \<leftarrow> create_test_quote_server ext rnd clk;
     S \<leftarrow> connected_test ext dbg qs;
     (buf, S) \<leftarrow> write_and_read ext dbg (''STREAM 127.0.0.1:50000 AAPL MSFT'' @ [newline]) S;
     assert (trim (from_utf8_lossy buf) = ''STREAM OK'')
   }"

definition test_stop_removes_client ::
    "'d externals \<Rightarrow> (tcp_server_error \<Rightarrow> string) \<Rightarrow> (nat \<Rightarrow> f64) \<Rightarrow> (nat \<Rightarrow> clock_reading) \<Rightarrow> unit option" where
  "test_stop_removes_client ext dbg rnd clk = do {
     qs \<leftarrow> create_test_quote_server ext rnd clk;
     S \<leftarrow> connected_test ext dbg qs;
     (buf, S) \<leftarrow> write_and_read ext dbg (''STREAM 127.0.0.1:50000 AAPL'' @ [newline]) S;
     (buf, S) \<leftarrow> write_and_read ext dbg (''STOP'' @ [newline]) S;
     assert (trim (from_utf8_lossy buf) = ''STOP OK'')
   }"


section \<open>They pass\<close>

text \<open>A connection that can read a line, at the time of its last activity or later.\<close>

definition idle :: "system \<Rightarrow> connection \<Rightarrow> bool" where
  "idle S co \<longleftrightarrow> sys_exit S = None \<and> sys_conns S 0 = Some co \<and> co_pc co = Reading \<and> co_buf co = [] \<and>
     co_last_ping co \<le> sys_clock S \<and> \<not> clients_locked (sys_server S)"

lemma idle_read:
  assumes "idle S co" and "newline \<notin> set l" and "utf8_valid (l @ [newline])"
    and "handle_read (good_io (sys_clock S)) (ReadOk (Suc (length l)) (l @ [newline])) co (sys_server S) = (co', s')"
  shows "exec ext dbg (Round 0 (good_io (sys_clock S)) [Data (l @ [newline])]) S =
    Some (S\<lparr>sys_conns := (sys_conns S)(0 \<mapsto> co'), sys_server := s'\<rparr>)"
  by (rule exec_read) (use assms in \<open>auto simp: idle_def instant_ok_def good_io_def\<close>)

lemma exchange_reading:
  assumes "idle S co" and "newline \<notin> set l" and "utf8_valid (l @ [newline])"
    and "handle_read (good_io (sys_clock S)) (ReadOk (Suc (length l)) (l @ [newline])) co (sys_server S) = (co', s')"
    and "co_pc co' = Reading" and "co_written co' = co_written co @ w" and "length w \<le> 128"
  shows "write_and_read ext dbg (l @ [newline]) S =
    Some (w, S\<lparr>sys_conns := (sys_conns S)(0 \<mapsto> co'), sys_server := s'\<rparr>)"
  using idle_read [OF assms(1-4), of ext dbg] assms(1,5-7)
  by (simp add: write_and_read_def idle_def joining_def)

text \<open>The connected test, and its connection after it has subscribed.\<close>

definition test_conn :: connection where
  "test_conn = open_connection 100 (Inr ()) (Inr ())"

definition test_system :: "quotes \<Rightarrow> system" where
  "test_system m = \<lparr>sys_server = initial_server m \<lparr>volatility = VOLATILITY\<rparr> [], sys_conns = [0 \<mapsto> test_conn],
     sys_next = 1, sys_clock = 100, sys_exit = None\<rparr>"

lemma test_setup:
  "\<exists>m. create_test_quote_server ext rnd clk = Some (sys_server (test_system m)) \<and>
     connected_test ext dbg (sys_server (test_system m)) = Some (test_system m)"
proof -
  have "list_all capitals [''AAPL'']" by (simp add: capitals_tickers)
  then obtain m where "from_config (x_upper ext) rnd clk ([] :: datagrams) (Inr (written_lines [''AAPL''])) =
      Inr (initial_server m \<lparr>volatility = VOLATILITY\<rparr> [])" by (rule from_config_capitals)
  then show ?thesis
    by (intro exI [of _ m]) (simp add: create_test_quote_server_def connected_test_def test_system_def test_conn_def
      tcp_bind_def exec_def exec_action_def accept_round_def Let_def)
qed

lemma test_system_idle: "idle (test_system m) test_conn"
  by (simp add: idle_def test_system_def test_conn_def open_connection_def initial_server_def)

lemma ascii_line: "ascii l \<Longrightarrow> utf8_valid (l @ [newline])"
  by (rule utf8_valid_ascii) (simp add: is_ascii_def byte_of_def newline_def)

lemma answer_text: "ascii w \<Longrightarrow> w \<noteq> [] \<Longrightarrow> \<not> is_space (hd w) \<Longrightarrow> \<not> is_space (last w) \<Longrightarrow>
    trim (from_utf8_lossy (w @ [newline])) = w"
  using ascii_line [of w] trim_line [of w] by (simp add: from_utf8_lossy_valid newline_def)


lemma answer_texts:
  "trim (from_utf8_lossy (''PONG'' @ [newline])) = ''PONG''"
  "trim (from_utf8_lossy (''STREAM OK'' @ [newline])) = ''STREAM OK''"
  "trim (from_utf8_lossy (''STOP OK'' @ [newline])) = ''STOP OK''"
  "trim (from_utf8_lossy (''ERR Invalid command'' @ [newline])) = ''ERR Invalid command''"
  by (intro answer_text; simp add: is_ascii_def byte_of_def is_space_iff)+

lemma good_io_simps: "io_now (good_io t) = t" "io_write (good_io t) = Inr ()" "io_bind (good_io t) = Inr ()"
  by (simp_all add: good_io_def)

text \<open>A line that needs no client: \<open>PING\<close> or one that is no command.\<close>

lemma exchange_line:
  assumes "ascii l" and "newline \<notin> set l" and "trim (l @ [newline]) = l" and "answer l = Some (w @ [newline])"
    and "\<not> starts_with l ''STOP''" and "length w < 128"
  shows "\<exists>S. write_and_read ext dbg (l @ [newline]) (test_system m) = Some (w @ [newline], S)"
proof -
  let ?S = "test_system m"
  let ?co = "test_conn\<lparr>co_last_ping := sys_clock ?S, co_written := co_written test_conn @ w @ [newline], co_pc := Reading\<rparr>"
  have "handle_read (good_io (sys_clock ?S)) (ReadOk (Suc (length l)) (l @ [newline])) test_conn (sys_server ?S) =
      (?co, sys_server ?S)"
    using line_answers [of "Suc (length l)" "good_io (sys_clock ?S)" "l @ [newline]" "w @ [newline]" test_conn "sys_server ?S"]
      assms(3-5) by (simp add: good_io_simps)
  from exchange_reading [OF test_system_idle assms(2) ascii_line [OF assms(1)] this, of "w @ [newline]" ext dbg] assms(6)
  show ?thesis by simp
qed

lemma test_ping_pong_passes: "test_ping_pong ext dbg rnd clk = Some ()"
proof -
  obtain m where m: "create_test_quote_server ext rnd clk = Some (sys_server (test_system m))"
    "connected_test ext dbg (sys_server (test_system m)) = Some (test_system m)"
    using test_setup by blast
  have "\<exists>S. write_and_read ext dbg (''PING'' @ [newline]) (test_system m) = Some (''PONG'' @ [newline], S)"
    using trim_ping by (intro exchange_line)
      (simp_all add: is_ascii_def byte_of_def newline_def answer_def starts_with_def)
  then obtain S where "write_and_read ext dbg (''PING'' @ [newline]) (test_system m) = Some (''PONG'' @ [newline], S)"
    by blast
  with m answer_texts(1) show ?thesis by (simp add: test_ping_pong_def)
qed

lemma test_invalid_command_passes: "test_invalid_command ext dbg rnd clk = Some ()"
proof -
  obtain m where m: "create_test_quote_server ext rnd clk = Some (sys_server (test_system m))"
    "connected_test ext dbg (sys_server (test_system m)) = Some (test_system m)"
    using test_setup by blast
  have "trim (''BLAH'' @ [newline]) = ''BLAH''"
    unfolding newline_def by (rule trim_line) (simp_all add: is_ascii_def byte_of_def is_space_iff)
  then have "\<exists>S. write_and_read ext dbg (''BLAH'' @ [newline]) (test_system m) =
      Some (''ERR Invalid command'' @ [newline], S)"
    by (intro exchange_line) (simp_all add: is_ascii_def byte_of_def newline_def answer_def starts_with_def)
  then obtain S where "write_and_read ext dbg (''BLAH'' @ [newline]) (test_system m) =
      Some (''ERR Invalid command'' @ [newline], S)" by blast
  with m answer_texts(4) show ?thesis by (simp add: test_invalid_command_def)
qed

text \<open>Subscribing.\<close>

definition subscribed_test :: "string list \<Rightarrow> quotes \<Rightarrow> system" where
  "subscribed_test ts m = (test_system m)\<lparr>
     sys_conns := [0 \<mapsto> test_conn\<lparr>co_client_id := Some 0, co_written := ''STREAM OK'' @ [newline]\<rparr>],
     sys_server := (sys_server (test_system m))\<lparr>rt_threads := [0 \<mapsto> new_thread ts (udp_callback example_addr)],
       rt_next := 1, clients_count := 1, clients := [0 \<mapsto> started_client ts (udp_callback example_addr) 0]\<rparr>\<rparr>"

lemma exchange_stream:
  assumes "tickers_ok ts"
  shows "write_and_read ext dbg (example_line ts @ [newline]) (test_system m) =
    Some (''STREAM OK'' @ [newline], subscribed_test ts m)"
proof -
  let ?S = "test_system m"
  let ?co = "test_conn\<lparr>co_client_id := Some 0, co_written := ''STREAM OK'' @ [newline]\<rparr>"
  note bytes = example_line_bytes [OF assms]
  have "handle_read (good_io (sys_clock ?S)) (ReadOk (Suc (length (example_line ts))) (example_line ts @ [newline]))
      test_conn (sys_server ?S) = (?co, sys_server (subscribed_test ts m))"
    unfolding example_line_def using assms
    by (subst stream_line_read)
      (simp_all add: good_io_simps tickers_ok_def test_system_def test_conn_def open_connection_def initial_server_def
        add_client_fresh subscribed_test_def example_addr_def)
  from exchange_reading [OF test_system_idle bytes this, of "''STREAM OK'' @ [newline]" ext dbg]
  show ?thesis by (simp add: test_conn_def open_connection_def subscribed_test_def) (simp add: test_system_def)
qed

lemma example_line_text:
  "example_line ts = ''STREAM 127.0.0.1:50000'' @ concat (map (\<lambda>t. '' '' @ t) ts)"
proof -
  have "show_nat 127 = ''127''" "show_nat 0 = ''0''" "show_nat 1 = ''1''" "show_nat 50000 = ''50000''"
    by (simp_all add: show_nat.simps digit_chars)
  then show ?thesis by (simp add: example_line_def stream_line_def show_v4_def)
qed


lemma test_stream_registers_client_passes: "test_stream_registers_client ext dbg rnd clk = Some ()"
proof -
  obtain m where m: "create_test_quote_server ext rnd clk = Some (sys_server (test_system m))"
    "connected_test ext dbg (sys_server (test_system m)) = Some (test_system m)"
    using test_setup by blast
  have "tickers_ok [''AAPL'', ''MSFT'']"
    by (simp add: tickers_ok_def word_def is_ascii_def is_space_iff byte_of_def)
  note exchange_stream [OF this, of ext dbg m]
  moreover have "example_line [''AAPL'', ''MSFT''] = ''STREAM 127.0.0.1:50000 AAPL MSFT''"
    by (simp add: example_line_text)
  ultimately show ?thesis using m answer_texts(2) by (simp add: test_stream_registers_client_def)
qed

text \<open>Stopping.\<close>

lemma exchange_stop:
  "\<exists>S. write_and_read ext dbg (''STOP'' @ [newline]) (subscribed_test ts m) = Some (''STOP OK'' @ [newline], S)"
proof -
  let ?S = "subscribed_test ts m" and ?cb = "udp_callback example_addr"
  let ?co = "test_conn\<lparr>co_client_id := Some 0, co_written := ''STREAM OK'' @ [newline]\<rparr>"
  let ?th = "new_thread ts ?cb"
  have idle: "idle ?S ?co"
    by (simp add: idle_def subscribed_test_def test_system_def test_conn_def open_connection_def initial_server_def)
  have ex: "sys_exit ?S = None" using idle by (simp add: idle_def)
  have "serves (sys_server ?S) (started_client ts ?cb 0) 0"
    by (simp add: serves_def subscribed_test_def live_def new_thread_def started_client_def chan_new_def)
  from remove_client_registered [OF _ _ this, of 0 ?th]
  obtain s1 where rm: "remove_client 0 (sys_server ?S) = (Join 0 (Inr ()), s1)"
    and s1: "s1 = (sys_server ?S)\<lparr>clients := Map.empty, rt_threads := [0 \<mapsto> push_cmd Shutdown ?th], clients_locked := True\<rparr>"
    by (simp add: subscribed_test_def test_system_def initial_server_def)
  let ?co1 = "?co\<lparr>co_client_id := None, co_pc := Joining 0 (AfterStop (Inr ()))\<rparr>"
  let ?S1 = "?S\<lparr>sys_conns := (sys_conns ?S)(0 \<mapsto> ?co1), sys_server := s1\<rparr>"
  have "handle_read (good_io (sys_clock ?S)) (ReadOk (Suc (length ''STOP'')) (''STOP'' @ [newline])) ?co (sys_server ?S) =
      (?co1, s1)"
    using rm
    by (simp add: handle_read_def handle_line_def handle_stop_def Let_def trim_stop [simplified] starts_with_def
        good_io_simps) (simp add: subscribed_test_def test_system_def test_conn_def open_connection_def)
  from idle_read [OF idle _ _ this, of ext dbg]
  have r1: "exec ext dbg (Round 0 (good_io (sys_clock ?S)) [Data (''STOP'' @ [newline])]) ?S = Some ?S1"
    by (simp add: newline_def utf8_valid_ascii is_ascii_def byte_of_def)
  obtain s2 where s2: "rt_step (x_ser ext) (quotes s1) (quotes_poisoned s1) 0 s1 = Some s2" "rt_finished 0 s2"
    by (simp add: s1 rt_step_def thread_step_def chan_recv_def new_thread_def chan_new_def push_cmd_def
        thread_finish_def chan_drop_receiver_def rt_finished_def)
  let ?S2 = "?S1\<lparr>sys_server := s2\<rparr>"
  have r2: "exec ext dbg (ClientThread 0) ?S1 = Some ?S2"
    using s2(1) ex by (simp add: exec_def exec_action_def with_server_def Let_def)
  let ?co2 = "?co1\<lparr>co_written := ''STREAM OK'' @ [newline] @ ''STOP OK'' @ [newline], co_pc := Reading\<rparr>"
  obtain S3 where r3: "exec ext dbg (Resume 0 (good_io (sys_clock ?S))) ?S2 = Some S3" and c: "sys_conns S3 0 = Some ?co2"
    using s2(2) ex by (simp add: exec_def exec_action_def with_conn_def conn_resume_def call_resume_def run_after_def
        stop_removed_def reply_ok good_io_simps Let_def)
  have "sys_conns ?S 0 = Some ?co" using idle by (simp add: idle_def)
  then show ?thesis
    using r1 r2 r3 c by (simp add: write_and_read_def joining_def)
qed

lemma test_stop_removes_client_passes: "test_stop_removes_client ext dbg rnd clk = Some ()"
proof -
  obtain m where m: "create_test_quote_server ext rnd clk = Some (sys_server (test_system m))"
    "connected_test ext dbg (sys_server (test_system m)) = Some (test_system m)"
    using test_setup by blast
  note exchange_stream [OF tickers_ok_examples(1), of ext dbg m]
  moreover have "example_line [''AAPL''] = ''STREAM 127.0.0.1:50000 AAPL''"
    by (simp add: example_line_text)
  moreover obtain S where "write_and_read ext dbg (''STOP'' @ [newline]) (subscribed_test [''AAPL''] m) =
      Some (''STOP OK'' @ [newline], S)" using exchange_stop by blast
  ultimately show ?thesis using m answer_texts(3) by (simp add: test_stop_removes_client_def)
qed


section \<open>The client program\<close>

text \<open>
  The unit tests of \<^verbatim>\<open>bins/client/main.rs\<close>, given what connecting to an address meets (\<open>net\<close>),
  what binding one results in (\<open>udp_bind\<close>) and how the exchange of the ping goes. They pass where
  nothing listens on port 65000.
\<close>

definition test_send_command_invalid_server :: "(string \<Rightarrow> connect_io) \<Rightarrow> unit option" where
  "test_send_command_invalid_server net = (let result = connect (net ''127.0.0.1:65000'') in assert (\<not> is_ok result))"

definition test_udp_bind :: "(string \<Rightarrow> io_error + unit) \<Rightarrow> unit option" where
  "test_udp_bind udp_bind = (let udp = udp_bind ''127.0.0.1:0'' in assert (is_ok udp))"

definition test_send_ping_no_server :: "(string \<Rightarrow> connect_io) \<Rightarrow> exchange \<Rightarrow> unit option" where
  "test_send_ping_no_server net ex =
     (let stream = cn_connect (net ''127.0.0.1:65000'') in
      if is_ok stream then do {
        unwrap (cn_clone (net ''127.0.0.1:65000''));
        (result, l) \<leftarrow> send_ping ex new_link;
        assert (\<not> is_ok result)
      } else Some ())"

lemma client_program_tests_pass:
  assumes "\<not> is_ok (cn_connect (net ''127.0.0.1:65000''))" and "is_ok (udp_bind ''127.0.0.1:0'')"
  shows "test_send_command_invalid_server net = Some ()" and "test_udp_bind udp_bind = Some ()"
    and "test_send_ping_no_server net ex = Some ()"
  using assms
  by (auto simp: test_send_command_invalid_server_def test_udp_bind_def test_send_ping_no_server_def connect_def
      is_ok_def split: sum.splits)

text \<open>Where a server answers the ping the two tests that connect fail.\<close>

lemma client_program_tests_need_silence:
  assumes "connect (net ''127.0.0.1:65000'') = Inr l" and "send_ping ex new_link = Some (Inr (), l')"
  shows "test_send_command_invalid_server net = None" and "test_send_ping_no_server net ex = None"
  using assms
  by (auto simp: test_send_command_invalid_server_def test_send_ping_no_server_def connect_def assert_def is_ok_def
      split: sum.splits)


section \<open>Property\<close>


end
