(* ===== verification/Spec2Isabelle.thy ===== *)
theory Spec2Isabelle
  imports Quote_Delivery Client_Ids Connection_Lifetime Server_Shutdown Session Options Protocol_Tests
begin

text \<open>
  A model of the quote streamer and the proofs of what makes it correct.

  \<^bold>\<open>The program.\<close> A server keeps a price for every ticker of a configuration file. Its background
  thread changes all prices at random every 200 ms and then notifies the subscribed clients.
  A subscription is made over TCP, one handler thread per connection, with the line commands
  \<^verbatim>\<open>STREAM host:port TICKER...\<close>, \<^verbatim>\<open>STOP\<close> and \<^verbatim>\<open>PING\<close>; every subscribed client has
  a thread of its own at the server, which on a notification sends the JSON text of its quotes
  as UDP datagrams. The client program sends typed commands, pings the server to keep the
  connection alive, reconnects when an exchange fails, and prints the datagrams.

  \<^bold>\<open>The theories\<close>, from the bottom up, with the sources they model (paths under
  \<^verbatim>\<open>src/\<close> of the repository, whose crate is in \<^verbatim>\<open>src\<close> and whose programs are in \<^verbatim>\<open>bins\<close>).

  \<^item> \<open>Prelude\<close>: the names of the machine integers, \<^verbatim>\<open>Result\<close> as a sum, lists split at separators,
    runs and reachable states of a step function, and the locales \<open>invariant_system\<close> and
    \<open>advancing_system\<close> (a transition system with an invariant, and with a preorder its steps
    go up in).
  \<^item> \<open>Rust_Text\<close>, \<open>Rust_IO\<close>, \<open>Rust_Net\<close>, \<open>Rust_F64\<close>: what the program uses of Rust's standard
    library. Text is a list of bytes with UTF-8 made explicit (validity, lossy decoding, white
    space, trimming, case); integers and \<^verbatim>\<open>f64\<close> are printed and parsed exactly, \<^verbatim>\<open>f64\<close> being the
    64 bits of IEEE 754 with rounding to nearest even; buffered readers consume a list of
    socket events; socket addresses are parsed by the recursive descent of the library. The
    locale \<open>text_field\<close> is the contract of a printable field, interpreted for \<^verbatim>\<open>u32\<close>, \<^verbatim>\<open>u64\<close> and
    \<^verbatim>\<open>f64\<close>.
  \<^item> \<open>Errors\<close> (\<^verbatim>\<open>src/errors.rs\<close>) and \<open>Defs\<close> (\<^verbatim>\<open>src/defs.rs\<close>): the error enumerations with their
    texts and conversions, and the constants.
  \<^item> \<open>Stock_Quote\<close> (\<^verbatim>\<open>src/stock_quote.rs\<close>) and \<open>Quote_Generator\<close> (\<^verbatim>\<open>src/quote_generator.rs\<close>): a
    quote, its text and its parser; one update of a quote and the pass over all of them. The
    random draws, the clock readings and the order of the parallel iterator are arguments.
  \<^item> \<open>Client\<close> (\<^verbatim>\<open>src/client.rs\<close>): the handle of a subscribed client and its thread. Threads are
    numbered; the record \<open>runtime\<close> holds their channels and program counters and a world that
    callbacks append to. \<open>thread_step\<close> is one atomic step of a thread. A call that joins
    a thread does not return: it gives \<open>Join\<close> with the thread it waits for.
    The locale \<open>fifo_channel\<close> is the contract of the standard library's channel.
  \<^item> \<open>Quote_Server\<close> (\<^verbatim>\<open>src/quote_server.rs\<close>): the record \<open>quote_server\<close> has the fields of the
    struct, the locks as booleans; one definition per method, and \<open>bg_step\<close> for the steps of
    the background thread. The locales \<open>registry\<close> and \<open>counted_registry\<close> are the contract the
    connection handler relies on, an abstract map from ids to subscriptions, which
    \<open>add_client\<close> and \<open>remove_client\<close> implement. \<open>Server_Shutdown\<close>: how the background
    thread ends.
  \<^item> \<open>Tcp_Server\<close> (\<^verbatim>\<open>src/tcp_server.rs\<close>): the accept loop and the handler of a connection; a round of
    its loop is \<open>conn_round\<close> (read a line and act on it), which may sleep (\<open>conn_wake\<close>) or wait for
    a thread (\<open>conn_resume\<close>). \<open>Tcp_Protocol\<close>: what the handler promises.
  \<^item> \<open>Server_Progress\<close>: what every operation does to the threads, by which the proofs about the
    whole program go on. \<open>System\<close> (\<^verbatim>\<open>bins/server/main.rs\<close>): the server program as a transition
    system. \<open>exec\<close> performs one atomic action of one thread (a tick of the clock, a step of a
    client thread or of the background thread, an accepted connection, a round of a handler
    or its continuation); what the outside chooses is in the action, and an action that would
    block is not enabled. \<open>Example_Run\<close> is a concrete run, used by the witnesses;
    \<open>System_Properties\<close>, \<open>Client_Ids\<close> and \<open>Connection_Lifetime\<close> hold the properties of all runs:
    what the threads do, whose client is whose, and how long a connection lives.
  \<^item> \<open>Quote_Client\<close> (\<^verbatim>\<open>bins/client/main.rs\<close>): the client program, its exchanges, its reconnection and
    its three loops, interleaved by \<open>client_exec\<close>. \<open>Client_Server\<close>: the exchanges of the
    client against the handler of the server. \<open>Quote_Delivery\<close>: from the quotes
    of the server to the terminal of the client.
  \<^item> \<open>Text_Safety\<close>: two invariants of the bytes in the server, that its tickers are valid text and
    that a connection is written whole replies. \<open>Session\<close>: the protocol as an abstract machine
    (\<open>serve_request\<close> on the subscriptions, the next id and the id of the connection), which a
    whole session of client and server refines.
  \<^item> \<open>Options\<close>: the command lines of the two programs and the beginning of each \<^verbatim>\<open>main\<close>.
  \<^item> \<open>Library_Tests\<close> and \<open>Protocol_Tests\<close>: the unit tests of \<^verbatim>\<open>src/quote_generator.rs\<close>,
    \<^verbatim>\<open>src/client.rs\<close>, \<^verbatim>\<open>src/quote_server.rs\<close>, \<^verbatim>\<open>src/tcp_server.rs\<close> and
    \<^verbatim>\<open>bins/client/main.rs\<close> as computations over the model, which validate it against what the authors expect of the code.
\<close>

text \<open>
  \<^bold>\<open>What is shown.\<close> In order of importance:

  \<^item> the whole server: the invariant \<open>sys_inv\<close> of every reachable state, that a
    notification reaches each subscriber as one datagram per ticker, the cycle of the background
    thread, that the clients mutex is always released again, that a removed client is silent,
    that every datagram belongs to a subscription, that ids are not confused, that its text is
    valid and its replies whole;
  \<^item> connections: a subscription lasts while lines arrive in time, whatever all other threads do;
    a silent connection is given up after six seconds and its client removed; a handler
    returns with nothing but \<^verbatim>\<open>Ok\<close>, a malformed \<^verbatim>\<open>STREAM\<close> or a socket error;
  \<^item> sessions: whatever well-formed requests are typed, client and server do what the abstract
    protocol does, and the unit tests pass;
  \<^item> the registry of clients refines an abstract map; the protocol of \<^verbatim>\<open>STREAM\<close>, \<^verbatim>\<open>STOP\<close>, \<^verbatim>\<open>PING\<close>,
    the keep-alive rule, the framing of lines; the behaviour of the handler's error branches;
  \<^item> termination: of a joined client thread, of the update loop, of the background thread after
    a shutdown, of reconnection;
  \<^item> the client: what is on its connection is a sequence of whole commands, its commands are
    answered by the handler, and the datagrams are printed; with the default period its pings
    come often enough for the server, if none is held up for two seconds;
  \<^item> the data: loading the configuration, parsing and printing a quote, the bounds of prices and
    volumes, the update pass on its success and failure.

  Some properties state behaviour that is not what the program means to do: a connection closed
  by its peer leaves its client registered, a second \<^verbatim>\<open>STREAM\<close> does as well, a partial line is
  lost at a read timeout, a lower-case ticker is never served, the client's prompt spins at the
  end of its input, and a reconnection forgets the subscription.

  \<^bold>\<open>Parameters.\<close> \<open>x_ser\<close>, the JSON text of a value (\<^verbatim>\<open>serde_json\<close>), and \<open>pretty\<close>, its layout in the
  client; \<open>x_lognormal\<close>, the constructor of the distribution (\<^verbatim>\<open>rand_distr\<close>), with the draws an
  argument of the pass; \<open>x_upper\<close> and \<open>tbl\<close>, the case tables of non-ASCII characters; \<open>dbg\<close>, the
  \<^verbatim>\<open>Debug\<close> text of an error; \<open>args\<close>, the value of each option that is given on the command line
  (\<^verbatim>\<open>structopt\<close>). Some properties assume something of them: that the upper-case table
  gives no lower-case ASCII letter, where lower-case tickers are concerned, and valid UTF-8,
  where the tickers of the server are; that the JSON texts are valid UTF-8 of at most 2048
  bytes, where the client prints them, and have the members of a quote, where a test looks
  for them.

  \<^bold>\<open>Bounds.\<close> The update loop ends within 101 rounds, since it waits 10 ms between attempts and
  gives up after 1000 ms; so 204 steps are enough for the background thread to stop. Ids are
  64-bit numbers that wrap, so the properties about ids speak of runs of fewer than
  \<open>2 ^ 64\<close> steps. Arithmetic on machine integers wraps, as in a release build; clocks are
  unbounded. Loops that need not end are functions of the list of observations their rounds
  make, and give no result when those run out.
\<close>

text \<open>
  \<^bold>\<open>Not modelled.\<close>

  \<^item> Log output and its formatter, the \<^verbatim>\<open>Debug\<close> texts, and the splitting of the command line,
    which the \<^verbatim>\<open>structopt\<close> crate does; of the logger only the level that is chosen.
  \<^item> \<^verbatim>\<open>src/lib.rs\<close> has no code but module declarations.
  \<^item> Failures of the runtime itself: allocation, spawning of threads, panics of the
    standard output. With no panic while a lock is held, no lock is ever poisoned in a run of
    the program; the branches for poisoned locks are modelled in the operations all the same.
  \<^item> The network between the programs. An exchange of the two is stated as: these bytes make the
    handler write those, and reading those, cut in any way, makes the client do this.
  \<^item> The memory model: an action of a thread is atomic. The server's actions are chosen such that
    each takes at most one lock and what lies between two actions is local to the thread; an
    exchange of the client holds both of its mutexes from beginning to end; and the client
    prints a whole message in one action.
\<close>

end
